theory Spec2Isabelle
  imports Main "HOL-Library.Word"
begin

unbundle bit_operations_syntax

section \<open>Machine types of the JNI boundary\<close>

text \<open>
  The native library is built for 64-bit Windows: \<open>jlong\<close> is a signed 64-bit integer,
  \<open>jint\<close> and \<open>int\<close> are signed 32-bit integers, \<open>UINT\<close> is an unsigned 32-bit
  integer and \<open>UINT64\<close> an unsigned 64-bit one. All of them are words; \<open>sint\<close> reads
  the signed ones, \<open>unat\<close> the unsigned ones. A \<open>jfloat\<close> is kept as its 32-bit pattern:
  the code only copies floats, it never computes with them.

  A C++ pointer \<open>T*\<close> to a COM object is a \<open>ptr option\<close>: \<open>None\<close> is \<open>nullptr\<close>,
  \<open>Some a\<close> the object at address \<open>a\<close>.
\<close>

type_synonym jlong = "64 word"
type_synonym jint = "32 word"
type_synonym jfloat = "32 word"
type_synonym jbyte = "8 word"
type_synonym UINT = "32 word"
type_synonym UINT64 = "64 word"
type_synonym ptr = nat

definition INT_MAX :: int where
  "INT_MAX = 2147483647"

definition INT_MIN :: int where
  "INT_MIN = - 2147483648"

definition LLONG_MAX :: jlong where
  "LLONG_MAX = 0x7FFFFFFFFFFFFFFF"

text \<open>
  Signed \<open>int\<close> arithmetic has no defined result when it overflows. \<open>int_result\<close> turns the
  mathematical result of a signed 32-bit operation into the value the code computes, or
  into \<open>None\<close> where the C++ operation is undefined.
\<close>

definition int_result :: "int \<Rightarrow> jint option" where
  "int_result v = (if INT_MIN \<le> v \<and> v \<le> INT_MAX then Some (word_of_int v) else None)"

section \<open>DX12Common.h: the blend table\<close>

text \<open>
  The enumerators of \<open>d3d12.h\<close> that \<open>GetBlendDesc\<close> names. No enumerator of
  \<open>D3D12_BLEND\<close> or \<open>D3D12_BLEND_OP\<close> has the value 0, which is what the
  value-initialisation \<open>desc = {}\<close> leaves in a field the switch does not assign:
  \<open>D3D12_BLEND_0\<close> and \<open>D3D12_BLEND_OP_0\<close> stand for it. \<open>D3D12_LOGIC_OP_CLEAR\<close> is the
  enumerator with value 0 of its type.
\<close>

datatype D3D12_BLEND =
    D3D12_BLEND_0
  | D3D12_BLEND_ZERO
  | D3D12_BLEND_ONE
  | D3D12_BLEND_SRC_ALPHA
  | D3D12_BLEND_INV_SRC_ALPHA
  | D3D12_BLEND_DEST_ALPHA
  | D3D12_BLEND_DEST_COLOR

datatype D3D12_BLEND_OP =
    D3D12_BLEND_OP_0
  | D3D12_BLEND_OP_ADD

datatype D3D12_LOGIC_OP =
    D3D12_LOGIC_OP_CLEAR
  | D3D12_LOGIC_OP_NOOP

record D3D12_RENDER_TARGET_BLEND_DESC =
  BlendEnable :: bool
  LogicOpEnable :: bool
  SrcBlend :: D3D12_BLEND
  DestBlend :: D3D12_BLEND
  BlendOp :: D3D12_BLEND_OP
  SrcBlendAlpha :: D3D12_BLEND
  DestBlendAlpha :: D3D12_BLEND
  BlendOpAlpha :: D3D12_BLEND_OP
  LogicOp :: D3D12_LOGIC_OP
  RenderTargetWriteMask :: "8 word"

text \<open>The enum \<open>BlendModeInt\<close>.\<close>

definition BLEND_NONE :: jint where
  "BLEND_NONE = 0"

definition BLEND_ALPHA :: jint where
  "BLEND_ALPHA = 1"

definition BLEND_ADDITIVE :: jint where
  "BLEND_ADDITIVE = 2"

definition BLEND_MULTIPLY :: jint where
  "BLEND_MULTIPLY = 3"

definition BLEND_PREMULTIPLIED_ALPHA :: jint where
  "BLEND_PREMULTIPLIED_ALPHA = 4"

definition D3D12_COLOR_WRITE_ENABLE_ALL :: "8 word" where
  "D3D12_COLOR_WRITE_ENABLE_ALL = 15"

text \<open>\<open>desc = {}\<close> followed by the three assignments before the switch.\<close>

definition blend_desc_start :: D3D12_RENDER_TARGET_BLEND_DESC where
  "blend_desc_start =
     \<lparr> BlendEnable = False, LogicOpEnable = False,
       SrcBlend = D3D12_BLEND_0, DestBlend = D3D12_BLEND_0, BlendOp = D3D12_BLEND_OP_0,
       SrcBlendAlpha = D3D12_BLEND_0, DestBlendAlpha = D3D12_BLEND_0,
       BlendOpAlpha = D3D12_BLEND_OP_0,
       LogicOp = D3D12_LOGIC_OP_NOOP,
       RenderTargetWriteMask = D3D12_COLOR_WRITE_ENABLE_ALL \<rparr>"

text \<open>\<open>GetBlendDesc\<close>: the switch has no default, so any other mode keeps the start value.\<close>

definition GetBlendDesc :: "jint \<Rightarrow> D3D12_RENDER_TARGET_BLEND_DESC" where
  "GetBlendDesc blendMode =
     (if blendMode = BLEND_NONE then
        blend_desc_start \<lparr> BlendEnable := False \<rparr>
      else if blendMode = BLEND_ALPHA then
        blend_desc_start \<lparr> BlendEnable := True,
          SrcBlend := D3D12_BLEND_SRC_ALPHA, DestBlend := D3D12_BLEND_INV_SRC_ALPHA,
          BlendOp := D3D12_BLEND_OP_ADD,
          SrcBlendAlpha := D3D12_BLEND_ONE, DestBlendAlpha := D3D12_BLEND_INV_SRC_ALPHA,
          BlendOpAlpha := D3D12_BLEND_OP_ADD \<rparr>
      else if blendMode = BLEND_ADDITIVE then
        blend_desc_start \<lparr> BlendEnable := True,
          SrcBlend := D3D12_BLEND_SRC_ALPHA, DestBlend := D3D12_BLEND_ONE,
          BlendOp := D3D12_BLEND_OP_ADD,
          SrcBlendAlpha := D3D12_BLEND_ONE, DestBlendAlpha := D3D12_BLEND_ONE,
          BlendOpAlpha := D3D12_BLEND_OP_ADD \<rparr>
      else if blendMode = BLEND_MULTIPLY then
        blend_desc_start \<lparr> BlendEnable := True,
          SrcBlend := D3D12_BLEND_DEST_COLOR, DestBlend := D3D12_BLEND_ZERO,
          BlendOp := D3D12_BLEND_OP_ADD,
          SrcBlendAlpha := D3D12_BLEND_DEST_ALPHA, DestBlendAlpha := D3D12_BLEND_ZERO,
          BlendOpAlpha := D3D12_BLEND_OP_ADD \<rparr>
      else if blendMode = BLEND_PREMULTIPLIED_ALPHA then
        blend_desc_start \<lparr> BlendEnable := True,
          SrcBlend := D3D12_BLEND_ONE, DestBlend := D3D12_BLEND_INV_SRC_ALPHA,
          BlendOp := D3D12_BLEND_OP_ADD,
          SrcBlendAlpha := D3D12_BLEND_ONE, DestBlendAlpha := D3D12_BLEND_INV_SRC_ALPHA,
          BlendOpAlpha := D3D12_BLEND_OP_ADD \<rparr>
      else blend_desc_start)"

text \<open>The colour triple of a blend description: (source factor, destination factor, operation).\<close>

definition blend_triple ::
  "D3D12_RENDER_TARGET_BLEND_DESC \<Rightarrow> D3D12_BLEND \<times> D3D12_BLEND \<times> D3D12_BLEND_OP" where
  "blend_triple d = (SrcBlend d, DestBlend d, BlendOp d)"

section \<open>Native objects\<close>

text \<open>
  The COM objects behind the handles belong to the Direct3D 12 runtime, not to this
  library. What the library does to them is kept as data: the reference count of every
  object (\<open>AddRef\<close> and \<open>Release\<close>), and, for every native command list, the calls it
  has received, in order. What the runtime makes of a call it receives is outside this
  development.
\<close>

type_synonym DXGI_FORMAT = "32 word"

definition DXGI_FORMAT_UNKNOWN :: DXGI_FORMAT where
  "DXGI_FORMAT_UNKNOWN = 0"

definition DXGI_FORMAT_R8G8B8A8_UNORM :: DXGI_FORMAT where
  "DXGI_FORMAT_R8G8B8A8_UNORM = 28"

text \<open>\<open>dstLoc.PlacedFootprint.Footprint\<close> of \<open>copyTextureToBuffer\<close>.\<close>

record D3D12_SUBRESOURCE_FOOTPRINT =
  Footprint_Format :: DXGI_FORMAT
  Footprint_Width :: UINT
  Footprint_Height :: UINT
  Footprint_Depth :: UINT
  Footprint_RowPitch :: UINT

text \<open>
  The calls the entry points make on an \<open>ID3D12GraphicsCommandList\<close>, with the arguments
  that are not constants of the source:
  \<^item> \<open>Reset allocator pso\<close>;
  \<^item> \<open>ResourceBarrier resource StateBefore StateAfter\<close> (one transition barrier, all
    subresources);
  \<^item> \<open>SetGraphicsRoot32BitConstants RootParameterIndex Num32BitValuesToSet data
    DestOffsetIn32BitValues\<close>;
  \<^item> \<open>DrawInstanced VertexCountPerInstance InstanceCount StartVertexLocation
    StartInstanceLocation\<close>;
  \<^item> \<open>CopyTextureRegion buffer footprint texture\<close> (destination: the placed footprint
    in \<open>buffer\<close>, at offset 0; source: subresource 0 of \<open>texture\<close>).
\<close>

datatype cl_call =
    Close
  | Reset ptr "ptr option"
  | ResourceBarrier ptr jint jint
  | SetGraphicsRootSignature ptr
  | SetGraphicsRoot32BitConstants UINT UINT "jfloat list" UINT
  | IASetPrimitiveTopology jint
  | SetPipelineState ptr
  | DrawInstanced UINT UINT UINT UINT
  | CopyTextureRegion ptr D3D12_SUBRESOURCE_FOOTPRINT ptr

section \<open>DX12Common.h: the handle registry\<close>

text \<open>
  The state of the process: the two data members of the \<open>HandleManager\<close> singleton
  (\<open>objects_\<close> and \<open>nextHandle_\<close>; an Isabelle name cannot end in an underscore, so they
  are \<open>objects\<close> and \<open>nextHandle\<close>), and the state of the native objects described
  above. The mutex makes \<open>store\<close>, \<open>get\<close> and \<open>release\<close> atomic; each is one step here.
\<close>

record process =
  objects :: "jlong \<rightharpoonup> ptr"
  nextHandle :: jlong
  refcount :: "ptr \<Rightarrow> nat"
  received :: "ptr \<Rightarrow> cl_call list"

text \<open>The constructor \<open>HandleManager() : nextHandle_(1)\<close>, before any native object exists.\<close>

definition HandleManager_init :: process where
  "HandleManager_init =
     \<lparr> objects = Map.empty, nextHandle = 1, refcount = (\<lambda>_. 0), received = (\<lambda>_. []) \<rparr>"

text \<open>
  \<open>store\<close>. The counter is a signed 64-bit integer: \<open>nextHandle_++\<close> at \<open>LLONG_MAX\<close> is a
  signed overflow, which C++ leaves undefined; the model returns \<open>None\<close> there. That point
  is reached only after \<open>2^63 - 2\<close> handles have been issued.
\<close>

definition store :: "process \<Rightarrow> ptr option \<Rightarrow> (jlong \<times> process) option" where
  "store s obj =
     (case obj of
        None \<Rightarrow> Some (0, s)
      | Some p \<Rightarrow>
          if nextHandle s = LLONG_MAX then None
          else Some (nextHandle s,
                 s \<lparr> refcount := (refcount s)(p := refcount s p + 1),
                     objects := (objects s)(nextHandle s \<mapsto> p),
                     nextHandle := nextHandle s + 1 \<rparr>))"

text \<open>\<open>get\<close>: the \<open>static_cast\<close> checks nothing, the lookup is the whole function.\<close>

definition get :: "process \<Rightarrow> jlong \<Rightarrow> ptr option" where
  "get s handle = objects s handle"

definition release :: "process \<Rightarrow> jlong \<Rightarrow> process" where
  "release s handle =
     (case objects s handle of
        None \<Rightarrow> s
      | Some p \<Rightarrow>
          s \<lparr> refcount := (refcount s)(p := refcount s p - 1),
              objects := (objects s)(handle := None) \<rparr>)"

text \<open>The destroy entry points of DX12Native.cpp: each is \<open>RELEASE_HANDLE\<close> of its argument.\<close>

definition destroyDevice :: "process \<Rightarrow> jlong \<Rightarrow> process" where
  "destroyDevice s device = release s device"

definition destroyCommandQueue :: "process \<Rightarrow> jlong \<Rightarrow> process" where
  "destroyCommandQueue s queue = release s queue"

definition destroyCommandAllocator :: "process \<Rightarrow> jlong \<Rightarrow> process" where
  "destroyCommandAllocator s allocator = release s allocator"

definition destroyCommandList :: "process \<Rightarrow> jlong \<Rightarrow> process" where
  "destroyCommandList s commandList = release s commandList"

definition destroyFence :: "process \<Rightarrow> jlong \<Rightarrow> process" where
  "destroyFence s fence = release s fence"

definition destroyRootSignature :: "process \<Rightarrow> jlong \<Rightarrow> process" where
  "destroyRootSignature s rootSig = release s rootSig"

definition destroyDescriptorHeap :: "process \<Rightarrow> jlong \<Rightarrow> process" where
  "destroyDescriptorHeap s heap = release s heap"

definition destroyResource :: "process \<Rightarrow> jlong \<Rightarrow> process" where
  "destroyResource s resource = release s resource"

definition destroyPipelineState :: "process \<Rightarrow> jlong \<Rightarrow> process" where
  "destroyPipelineState s pso = release s pso"

definition destroyBuffer :: "process \<Rightarrow> jlong \<Rightarrow> process" where
  "destroyBuffer s buffer = release s buffer"

definition destroyTexture :: "process \<Rightarrow> jlong \<Rightarrow> process" where
  "destroyTexture s texture = release s texture"

definition destroy_calls :: "(process \<Rightarrow> jlong \<Rightarrow> process) list" where
  "destroy_calls =
     [destroyDevice, destroyCommandQueue, destroyCommandAllocator, destroyCommandList,
      destroyFence, destroyRootSignature, destroyDescriptorHeap, destroyResource,
      destroyPipelineState, destroyBuffer, destroyTexture]"

text \<open>
  Sequences of registry operations. An \<open>op\<close> is a call with its arguments; running it
  gives an \<open>event\<close>, the call together with what it returned. \<open>run\<close> is \<open>None\<close> when a
  store of the sequence is undefined.
\<close>

datatype op = Store "ptr option" | Get jlong | Release jlong

datatype event = Stored "ptr option" jlong | Got jlong "ptr option" | Released jlong

fun step :: "process \<Rightarrow> op \<Rightarrow> (event \<times> process) option" where
  "step s (Store obj) =
     (case store s obj of None \<Rightarrow> None | Some (h, s') \<Rightarrow> Some (Stored obj h, s'))"
| "step s (Get h) = Some (Got h (get s h), s)"
| "step s (Release h) = Some (Released h, release s h)"

fun run :: "process \<Rightarrow> op list \<Rightarrow> (event list \<times> process) option" where
  "run s [] = Some ([], s)"
| "run s (a # ops) =
     (case step s a of
        None \<Rightarrow> None
      | Some (e, s') \<Rightarrow>
          (case run s' ops of None \<Rightarrow> None | Some (es, s'') \<Rightarrow> Some (e # es, s'')))"

text \<open>The handles issued in a trace: those returned by the stores of a non-null object.\<close>

fun issued :: "event list \<Rightarrow> jlong list" where
  "issued [] = []"
| "issued (Stored (Some p) h # es) = h # issued es"
| "issued (e # es) = issued es"

text \<open>
  The invariant of the registry: the counter is positive as a signed number, and every
  live handle lies between 1 and the counter.
\<close>

definition registry_ok :: "process \<Rightarrow> bool" where
  "registry_ok s \<longleftrightarrow>
     0 < unat (nextHandle s) \<and> unat (nextHandle s) < 2 ^ 63 \<and>
     (\<forall>h \<in> dom (objects s). 0 < unat h \<and> unat h < unat (nextHandle s))"

section \<open>DX12Native.cpp: command lists\<close>

text \<open>\<open>call s list c\<close>: the native command list \<open>list\<close> receives the call \<open>c\<close>.\<close>

definition call :: "process \<Rightarrow> ptr \<Rightarrow> cl_call \<Rightarrow> process" where
  "call s list c = s \<lparr> received := (received s)(list := received s list @ [c]) \<rparr>"

text \<open>
  \<open>createCommandList\<close>. \<open>CreateCommandList_result\<close> is what \<open>device->CreateCommandList\<close>
  gives: \<open>None\<close> when it fails, the new list otherwise. The new list is closed at once
  (\<open>// Close it immediately - will be reset when needed\<close>) and stored.
\<close>

definition createCommandList ::
  "process \<Rightarrow> jlong \<Rightarrow> jlong \<Rightarrow> ptr option \<Rightarrow> (jlong \<times> process) option" where
  "createCommandList s deviceHandle allocatorHandle CreateCommandList_result =
     (case (get s deviceHandle, get s allocatorHandle) of
        (Some device, Some allocator) \<Rightarrow>
          (case CreateCommandList_result of
             None \<Rightarrow> Some (0, s)
           | Some commandList \<Rightarrow> store (call s commandList Close) (Some commandList))
      | _ \<Rightarrow> Some (0, s))"

definition resetCommandList :: "process \<Rightarrow> jlong \<Rightarrow> jlong \<Rightarrow> jlong \<Rightarrow> process" where
  "resetCommandList s commandListHandle allocatorHandle pipelineStateHandle =
     (let commandList = get s commandListHandle;
          allocator = get s allocatorHandle;
          pso = (if pipelineStateHandle \<noteq> 0 then get s pipelineStateHandle else None)
      in case (commandList, allocator) of
           (Some l, Some a) \<Rightarrow> call s l (Reset a pso)
         | _ \<Rightarrow> s)"




text \<open>
  \<open>setGraphicsRoot32BitConstants\<close>: \<open>values\<close> is the Java float array, \<open>len\<close> its length.
\<close>

definition setGraphicsRoot32BitConstants ::
  "process \<Rightarrow> jlong \<Rightarrow> jint \<Rightarrow> jfloat list \<Rightarrow> jint \<Rightarrow> process" where
  "setGraphicsRoot32BitConstants s commandListHandle rootParameterIndex values offset =
     (case get s commandListHandle of
        None \<Rightarrow> s
      | Some commandList \<Rightarrow>
          (let len = word_of_nat (length values) :: jint
           in call s commandList
                (SetGraphicsRoot32BitConstants rootParameterIndex len values offset)))"




text \<open>
  The state of a native command list, read off the calls it has received: closed after
  \<open>Close\<close>, recording after \<open>Reset\<close>. A list that has received neither is as
  \<open>CreateCommandList\<close> made it, which is recording: that is why \<open>createCommandList\<close>
  closes it.
\<close>

fun list_recording :: "cl_call list \<Rightarrow> bool \<Rightarrow> bool" where
  "list_recording [] st = st"
| "list_recording (Close # cs) st = list_recording cs False"
| "list_recording (Reset a p # cs) st = list_recording cs True"
| "list_recording (c # cs) st = list_recording cs st"

definition list_closed :: "process \<Rightarrow> ptr \<Rightarrow> bool" where
  "list_closed s list = (\<not> list_recording (received s list) True)"

text \<open>
  The root parameters \<open>CreateRootSignature\<close> declares: parameter 0 is a block of 32-bit
  constants (shader register, register space, number of values), parameter 1 a
  descriptor table of one range of shader resource views (number of descriptors, base
  register, register space).
\<close>

datatype D3D12_ROOT_PARAMETER =
    ROOT_32BIT_CONSTANTS UINT UINT UINT
  | ROOT_DESCRIPTOR_TABLE_SRV UINT UINT UINT

definition rootParams :: "D3D12_ROOT_PARAMETER list" where
  "rootParams = [ROOT_32BIT_CONSTANTS 0 0 20, ROOT_DESCRIPTOR_TABLE_SRV 1 0 0]"

text \<open>
  Where a \<open>SetGraphicsRoot32BitConstants\<close> call writes: the root parameter it names and
  the byte offset, inside that parameter's block, of the first value it sets. The
  native offset counts 32-bit values, so the byte offset is four times it.
\<close>

fun constants_target :: "cl_call \<Rightarrow> (nat \<times> nat) option" where
  "constants_target (SetGraphicsRoot32BitConstants i n d off) = Some (unat i, 4 * unat off)"
| "constants_target c = None"

text \<open>
  Two states for examples. In \<open>closed_list_state\<close> handle 1 is a device (object 10),
  handle 2 a command allocator (object 11) and handle 3 a command list (object 12) as
  \<open>createCommandList\<close> leaves it: closed. In \<open>recording_list_state\<close> the list has been
  reset with the allocator and no pipeline state.
\<close>

definition closed_list_state :: process where
  "closed_list_state =
     \<lparr> objects = [1 \<mapsto> 10, 2 \<mapsto> 11, 3 \<mapsto> 12], nextHandle = 4,
       refcount = (\<lambda>_. 0)(10 := 2, 11 := 2, 12 := 2),
       received = (\<lambda>_. [])(12 := [Close]) \<rparr>"

definition recording_list_state :: process where
  "recording_list_state = resetCommandList closed_list_state 3 2 0"

section \<open>DX12Native.cpp: fences\<close>

text \<open>
  What \<open>waitForFence\<close> meets outside the library during one call: the completed value
  of the fence when the call reads it, the result of \<open>CreateEvent\<close> (\<open>None\<close> is the
  \<open>NULL\<close> handle of a failure), whether \<open>SetEventOnCompletion\<close> registers the event,
  and the values the fence's completed value takes afterwards, in order.
\<close>

record fence_env =
  completed_at_call :: UINT64
  CreateEvent_result :: "nat option"
  SetEventOnCompletion_ok :: bool
  completed_later :: "UINT64 list"

text \<open>
  How a call ends: it returns while the fence's completed value is the given one, or it
  blocks for as long as the environment describes.
\<close>

datatype wait_outcome = Returned UINT64 | Blocked

text \<open>
  \<open>WaitForSingleObject(event, INFINITE)\<close> on an event registered for \<open>fenceValue\<close>: the
  wait ends when the completed value first reaches \<open>fenceValue\<close>.
\<close>

fun wait_for_event :: "UINT64 \<Rightarrow> UINT64 list \<Rightarrow> wait_outcome" where
  "wait_for_event fenceValue [] = Blocked"
| "wait_for_event fenceValue (c # cs) =
     (if fenceValue \<le> c then Returned c else wait_for_event fenceValue cs)"

text \<open>
  \<open>waitForFence\<close>. \<open>GetCompletedValue\<close> is a \<open>UINT64\<close>, so the comparison with the
  \<open>jlong\<close> argument is unsigned, as the order on words is.
\<close>

definition waitForFence :: "process \<Rightarrow> jlong \<Rightarrow> jlong \<Rightarrow> fence_env \<Rightarrow> wait_outcome" where
  "waitForFence s fenceHandle fenceValue env =
     (case get s fenceHandle of
        None \<Rightarrow> Returned (completed_at_call env)
      | Some fence \<Rightarrow>
          if completed_at_call env < fenceValue then
            (case CreateEvent_result env of
               Some event \<Rightarrow>
                 if SetEventOnCompletion_ok env
                 then wait_for_event fenceValue (completed_later env)
                 else Blocked
             | None \<Rightarrow> Returned (completed_at_call env))
          else Returned (completed_at_call env))"

text \<open>\<open>getFenceCompletedValue\<close>, given the fence's completed value at the call.\<close>

definition getFenceCompletedValue :: "process \<Rightarrow> jlong \<Rightarrow> UINT64 \<Rightarrow> jlong" where
  "getFenceCompletedValue s fenceHandle completed =
     (case get s fenceHandle of Some fence \<Rightarrow> completed | None \<Rightarrow> 0)"

text \<open>A state in which handle 1 is a device (object 10) and handle 2 a fence (object 20).\<close>

definition fence_state :: process where
  "fence_state =
     \<lparr> objects = [1 \<mapsto> 10, 2 \<mapsto> 20], nextHandle = 3,
       refcount = (\<lambda>_. 0)(10 := 2, 20 := 2), received = (\<lambda>_. []) \<rparr>"

section \<open>DX12Native.cpp: choosing the device\<close>

text \<open>
  What the two entry points meet: whether \<open>CreateDXGIFactory1\<close> succeeds, and the
  adapters \<open>EnumAdapters1\<close> enumerates, each with the flags of its description and with
  what \<open>D3D12CreateDevice\<close> at feature level 12.0 gives on it (\<open>None\<close> when it fails,
  the device otherwise).
\<close>

record adapter =
  Flags :: UINT
  D3D12CreateDevice_result :: "ptr option"

record dxgi_env =
  CreateDXGIFactory1_ok :: bool
  EnumAdapters1 :: "adapter list"

definition DXGI_ADAPTER_FLAG_SOFTWARE :: UINT where
  "DXGI_ADAPTER_FLAG_SOFTWARE = 2"

fun isAvailable_loop :: "adapter list \<Rightarrow> bool" where
  "isAvailable_loop [] = False"
| "isAvailable_loop (a # as) =
     (if Flags a AND DXGI_ADAPTER_FLAG_SOFTWARE \<noteq> 0 then isAvailable_loop as
      else (case D3D12CreateDevice_result a of
              Some device \<Rightarrow> True
            | None \<Rightarrow> isAvailable_loop as))"

definition isAvailable :: "dxgi_env \<Rightarrow> bool" where
  "isAvailable env =
     (if \<not> CreateDXGIFactory1_ok env then False else isAvailable_loop (EnumAdapters1 env))"

fun createDevice_loop :: "process \<Rightarrow> adapter list \<Rightarrow> (jlong \<times> process) option" where
  "createDevice_loop s [] = Some (0, s)"
| "createDevice_loop s (a # as) =
     (if Flags a AND DXGI_ADAPTER_FLAG_SOFTWARE \<noteq> 0 then createDevice_loop s as
      else (case D3D12CreateDevice_result a of
              Some device \<Rightarrow> store s (Some device)
            | None \<Rightarrow> createDevice_loop s as))"

definition createDevice :: "dxgi_env \<Rightarrow> process \<Rightarrow> (jlong \<times> process) option" where
  "createDevice env s =
     (if \<not> CreateDXGIFactory1_ok env then Some (0, s)
      else createDevice_loop s (EnumAdapters1 env))"

text \<open>
  The selection as the specification words it: of the adapters in enumeration order,
  leave out the software ones and take the first on which device creation succeeds.
\<close>

definition first_capable :: "dxgi_env \<Rightarrow> adapter option" where
  "first_capable env =
     (if CreateDXGIFactory1_ok env
      then find (\<lambda>a. D3D12CreateDevice_result a \<noteq> None)
             (filter (\<lambda>a. Flags a AND DXGI_ADAPTER_FLAG_SOFTWARE = 0) (EnumAdapters1 env))
      else None)"

text \<open>An environment: a software adapter, a hardware adapter that fails, one that works.\<close>

definition three_adapters :: dxgi_env where
  "three_adapters =
     \<lparr> CreateDXGIFactory1_ok = True,
       EnumAdapters1 =
         [\<lparr> Flags = 2, D3D12CreateDevice_result = Some 40 \<rparr>,
          \<lparr> Flags = 0, D3D12CreateDevice_result = None \<rparr>,
          \<lparr> Flags = 0, D3D12CreateDevice_result = Some 41 \<rparr>] \<rparr>"

text \<open>An environment in which no adapter qualifies: a software one and a failing one.\<close>

definition software_only :: dxgi_env where
  "software_only =
     \<lparr> CreateDXGIFactory1_ok = True,
       EnumAdapters1 =
         [\<lparr> Flags = 2, D3D12CreateDevice_result = Some 40 \<rparr>,
          \<lparr> Flags = 0, D3D12CreateDevice_result = None \<rparr>] \<rparr>"

section \<open>DX12Native.cpp: pipeline state objects\<close>

record D3D12_INPUT_ELEMENT_DESC =
  SemanticName :: string
  SemanticIndex :: UINT
  Format :: DXGI_FORMAT
  InputSlot :: UINT
  AlignedByteOffset :: UINT
  InputSlotClass :: UINT
  InstanceDataStepRate :: UINT

definition semantics :: "string list" where
  "semantics = [''POSITION'', ''COLOR'', ''TEXCOORD'']"

definition D3D12_INPUT_CLASSIFICATION_PER_VERTEX_DATA :: UINT where
  "D3D12_INPUT_CLASSIFICATION_PER_VERTEX_DATA = 0"

text \<open>The body of the loop that fills \<open>inputLayout[i]\<close>.\<close>

definition input_element :: "nat \<Rightarrow> jint \<Rightarrow> jint \<Rightarrow> D3D12_INPUT_ELEMENT_DESC" where
  "input_element i fmt off =
     \<lparr> SemanticName = semantics ! (if i < 3 then i else 2),
       SemanticIndex = (if i < 3 then 0 else word_of_nat (i - 2)),
       Format = fmt,
       InputSlot = 0,
       AlignedByteOffset = off,
       InputSlotClass = D3D12_INPUT_CLASSIFICATION_PER_VERTEX_DATA,
       InstanceDataStepRate = 0 \<rparr>"

text \<open>
  The loop \<open>for (int i = 0; i < numAttrs; i++)\<close>, where \<open>numAttrs\<close> is the length of
  \<open>formats\<close>: the first argument is \<open>i\<close>, the second the formats from index \<open>i\<close> on.
  The loop reads \<open>offsetsData[i]\<close> without looking at the length of \<open>offsets\<close>; a read
  past the end of that array has no defined result, and the model gives \<open>None\<close>.
\<close>

fun inputLayout_loop ::
  "nat \<Rightarrow> jint list \<Rightarrow> jint list \<Rightarrow> D3D12_INPUT_ELEMENT_DESC list option" where
  "inputLayout_loop i [] offsets = Some []"
| "inputLayout_loop i (fmt # fmts) offsets =
     (if i < length offsets then
        (case inputLayout_loop (Suc i) fmts offsets of
           None \<Rightarrow> None
         | Some elems \<Rightarrow> Some (input_element i fmt (offsets ! i) # elems))
      else None)"

text \<open>
  The input layout as the specification describes it: one element for each format, the
  \<open>i\<close>-th built from the \<open>i\<close>-th format and the \<open>i\<close>-th offset, with the semantic that
  position \<open>i\<close> has.
\<close>

definition attribute_layout ::
  "jint list \<Rightarrow> jint list \<Rightarrow> D3D12_INPUT_ELEMENT_DESC list" where
  "attribute_layout formats offsets =
     map (\<lambda>i. input_element i (formats ! i) (offsets ! i)) [0..<length formats]"

record D3D12_RASTERIZER_DESC =
  FillMode :: UINT
  CullMode :: UINT
  FrontCounterClockwise :: bool
  DepthBias :: jint
  DepthBiasClamp :: jfloat
  SlopeScaledDepthBias :: jfloat
  DepthClipEnable :: bool
  MultisampleEnable :: bool
  AntialiasedLineEnable :: bool
  ForcedSampleCount :: UINT
  ConservativeRaster :: UINT

definition D3D12_FILL_MODE_SOLID :: UINT where
  "D3D12_FILL_MODE_SOLID = 3"

definition D3D12_CULL_MODE_NONE :: UINT where
  "D3D12_CULL_MODE_NONE = 1"

text \<open>
  The rasterizer state of the source; the three \<open>D3D12_DEFAULT_\<close> depth-bias constants
  are 0, 0.0f and 0.0f, and the conservative rasterization mode \<open>OFF\<close> is 0.
\<close>

definition rasterizer_state :: D3D12_RASTERIZER_DESC where
  "rasterizer_state =
     \<lparr> FillMode = D3D12_FILL_MODE_SOLID, CullMode = D3D12_CULL_MODE_NONE,
       FrontCounterClockwise = False, DepthBias = 0, DepthBiasClamp = 0,
       SlopeScaledDepthBias = 0, DepthClipEnable = True, MultisampleEnable = False,
       AntialiasedLineEnable = False, ForcedSampleCount = 0, ConservativeRaster = 0 \<rparr>"

record D3D12_GRAPHICS_PIPELINE_STATE_DESC =
  pRootSignature :: ptr
  VS :: "jbyte list"
  PS :: "jbyte list"
  InputLayout :: "D3D12_INPUT_ELEMENT_DESC list"
  PrimitiveTopologyType :: jint
  AlphaToCoverageEnable :: bool
  IndependentBlendEnable :: bool
  RenderTarget0 :: D3D12_RENDER_TARGET_BLEND_DESC
  RasterizerState :: D3D12_RASTERIZER_DESC
  DepthEnable :: bool
  StencilEnable :: bool
  SampleMask :: UINT
  SampleDesc_Count :: UINT
  SampleDesc_Quality :: UINT
  NumRenderTargets :: UINT
  RTVFormats0 :: DXGI_FORMAT
  DSVFormat :: DXGI_FORMAT

definition psoDesc ::
  "ptr \<Rightarrow> jbyte list \<Rightarrow> jbyte list \<Rightarrow> D3D12_INPUT_ELEMENT_DESC list \<Rightarrow> jint \<Rightarrow> jint \<Rightarrow>
   D3D12_GRAPHICS_PIPELINE_STATE_DESC" where
  "psoDesc rootSig vsBytecode psBytecode inputLayout topologyType blendMode =
     \<lparr> pRootSignature = rootSig,
       VS = vsBytecode,
       PS = psBytecode,
       InputLayout = inputLayout,
       PrimitiveTopologyType = topologyType,
       AlphaToCoverageEnable = False,
       IndependentBlendEnable = False,
       RenderTarget0 = GetBlendDesc blendMode,
       RasterizerState = rasterizer_state,
       DepthEnable = False,
       StencilEnable = False,
       SampleMask = - 1,
       SampleDesc_Count = 1,
       SampleDesc_Quality = 0,
       NumRenderTargets = 1,
       RTVFormats0 = DXGI_FORMAT_R8G8B8A8_UNORM,
       DSVFormat = DXGI_FORMAT_UNKNOWN \<rparr>"

text \<open>
  \<open>createPipelineState\<close>. Its first argument stands for the runtime:
  \<open>CreateGraphicsPipelineState device desc\<close> is \<open>None\<close> when the native call fails and
  the new pipeline state otherwise. The argument \<open>stride\<close> is not used by the source.
\<close>

definition createPipelineState ::
  "(ptr \<Rightarrow> D3D12_GRAPHICS_PIPELINE_STATE_DESC \<Rightarrow> ptr option) \<Rightarrow> process \<Rightarrow>
   jlong \<Rightarrow> jlong \<Rightarrow> jbyte list \<Rightarrow> jbyte list \<Rightarrow> jint \<Rightarrow> jint \<Rightarrow>
   jint list \<Rightarrow> jint list \<Rightarrow> jint \<Rightarrow> (jlong \<times> process) option" where
  "createPipelineState CreateGraphicsPipelineState s deviceHandle rootSigHandle
     vsBytecode psBytecode topologyType blendMode formats offsets stride =
     (case (get s deviceHandle, get s rootSigHandle) of
        (Some device, Some rootSig) \<Rightarrow>
          (case inputLayout_loop 0 formats offsets of
             None \<Rightarrow> None
           | Some inputLayout \<Rightarrow>
               (case CreateGraphicsPipelineState device
                       (psoDesc rootSig vsBytecode psBytecode inputLayout topologyType blendMode) of
                  None \<Rightarrow> Some (0, s)
                | Some pso \<Rightarrow> store s (Some pso)))
      | _ \<Rightarrow> Some (0, s))"

text \<open>
  A state in which handle 1 is a device (object 10) and handle 2 a root signature
  (object 30), and a runtime that compiles every description into object 50.
\<close>

definition pso_state :: process where
  "pso_state =
     \<lparr> objects = [1 \<mapsto> 10, 2 \<mapsto> 30], nextHandle = 3,
       refcount = (\<lambda>_. 0)(10 := 2, 30 := 2), received = (\<lambda>_. []) \<rparr>"

definition compiles_all :: "ptr \<Rightarrow> D3D12_GRAPHICS_PIPELINE_STATE_DESC \<Rightarrow> ptr option" where
  "compiles_all device desc = Some 50"

text \<open>A runtime that compiles nothing.\<close>

definition compiles_none :: "ptr \<Rightarrow> D3D12_GRAPHICS_PIPELINE_STATE_DESC \<Rightarrow> ptr option" where
  "compiles_none device desc = None"

section \<open>DX12Native.cpp: reading a render target back\<close>

text \<open>
  The expression \<open>((width * 4) + 255) & ~255\<close>, which both \<open>copyTextureToBuffer\<close> and
  \<open>readBufferData\<close> compute in \<open>int\<close> and then keep in a \<open>UINT\<close>. The multiplication
  and the addition are signed, hence undefined when they overflow.
\<close>

definition row_pitch :: "jint \<Rightarrow> UINT option" where
  "row_pitch width =
     (case int_result (sint width * 4) of
        None \<Rightarrow> None
      | Some w4 \<Rightarrow>
          (case int_result (sint w4 + 255) of
             None \<Rightarrow> None
           | Some t \<Rightarrow> Some (t AND NOT 255)))"

text \<open>
  \<open>copyTextureToBuffer\<close> records one \<open>CopyTextureRegion\<close> whose destination is the
  placed footprint with this row pitch.
\<close>

definition copyTextureToBuffer ::
  "process \<Rightarrow> jlong \<Rightarrow> jlong \<Rightarrow> jlong \<Rightarrow> jint \<Rightarrow> jint \<Rightarrow> process option" where
  "copyTextureToBuffer s commandListHandle textureHandle bufferHandle width height =
     (case (get s commandListHandle, get s textureHandle, get s bufferHandle) of
        (Some commandList, Some texture, Some buffer) \<Rightarrow>
          (case row_pitch width of
             None \<Rightarrow> None
           | Some rowPitch \<Rightarrow>
               Some (call s commandList
                 (CopyTextureRegion buffer
                    \<lparr> Footprint_Format = DXGI_FORMAT_R8G8B8A8_UNORM,
                      Footprint_Width = width,
                      Footprint_Height = height,
                      Footprint_Depth = 1,
                      Footprint_RowPitch = rowPitch \<rparr>
                    texture)))
      | _ \<Rightarrow> Some s)"

text \<open>
  A \<open>jint\<close> read from four bytes of mapped memory; the targets of this library are
  little-endian.
\<close>

fun le32 :: "jbyte list \<Rightarrow> jint" where
  "le32 [b0, b1, b2, b3] =
     ucast b0 OR push_bit 8 (ucast b1) OR push_bit 16 (ucast b2) OR push_bit 24 (ucast b3)"
| "le32 bs = 0"

text \<open>
  One turn of the loop of \<open>readBufferData\<close>:
  \<open>memcpy(pixelData + y * width, mapped + y * rowPitch, width * 4)\<close>, with \<open>mapped\<close> the
  bytes of the mapped buffer and \<open>pixels\<close> the elements of the Java array.
  \<^item> \<open>y * width\<close> and \<open>width * 4\<close> are signed products, undefined when they overflow;
  \<^item> \<open>y * rowPitch\<close> is a product of an \<open>int\<close> and a \<open>UINT\<close>, so it is computed in
    \<open>UINT\<close> and wraps around modulo \<open>2^32\<close>;
  \<^item> a negative \<open>width * 4\<close> becomes a huge \<open>size_t\<close>, and a copy that leaves the
    buffer or the array is undefined: the model gives \<open>None\<close> for both.
\<close>

definition memcpy_row ::
  "jint \<Rightarrow> UINT \<Rightarrow> jbyte list \<Rightarrow> nat \<Rightarrow> jint list \<Rightarrow> jint list option" where
  "memcpy_row width rowPitch mapped y pixels =
     (case (int_result (int y * sint width), int_result (sint width * 4)) of
        (Some dst, Some n) \<Rightarrow>
          (let src = unat (word_of_nat y * rowPitch :: UINT);
               d = nat (sint dst);
               w = nat (sint width)
           in if 0 \<le> sint width \<and> src + 4 * w \<le> length mapped \<and> d + w \<le> length pixels
              then Some (take d pixels @
                         map (\<lambda>x. le32 (take 4 (drop (src + 4 * x) mapped))) [0..<w] @
                         drop (d + w) pixels)
              else None)
      | _ \<Rightarrow> None)"

text \<open>
  The loop \<open>for (int y = 0; y < height; y++)\<close>: the first argument after the buffers is
  the number of rows still to copy, the second is \<open>y\<close>.
\<close>

fun copy_rows ::
  "jint \<Rightarrow> UINT \<Rightarrow> jbyte list \<Rightarrow> nat \<Rightarrow> nat \<Rightarrow> jint list \<Rightarrow> jint list option" where
  "copy_rows width rowPitch mapped 0 y pixels = Some pixels"
| "copy_rows width rowPitch mapped (Suc n) y pixels =
     (case memcpy_row width rowPitch mapped y pixels of
        None \<Rightarrow> None
      | Some pixels' \<Rightarrow> copy_rows width rowPitch mapped n (Suc y) pixels')"

text \<open>
  \<open>readBufferData\<close>: the result is the Java array after the call. \<open>Map_result\<close> is
  \<open>None\<close> when \<open>buffer->Map\<close> fails and the mapped bytes otherwise. The end of the read
  range, \<open>width * height * 4\<close>, is a signed product as well.
\<close>

definition readBufferData ::
  "process \<Rightarrow> jlong \<Rightarrow> jint list \<Rightarrow> jint \<Rightarrow> jint \<Rightarrow> jbyte list option \<Rightarrow> jint list option" where
  "readBufferData s bufferHandle pixels width height Map_result =
     (case get s bufferHandle of
        None \<Rightarrow> Some pixels
      | Some buffer \<Rightarrow>
          (case int_result (sint width * sint height) of
             None \<Rightarrow> None
           | Some wh \<Rightarrow>
               (case int_result (sint wh * 4) of
                  None \<Rightarrow> None
                | Some readRange_End \<Rightarrow>
                    (case Map_result of
                       None \<Rightarrow> Some pixels
                     | Some mapped \<Rightarrow>
                         (case row_pitch width of
                            None \<Rightarrow> None
                          | Some rowPitch \<Rightarrow>
                              copy_rows width rowPitch mapped (nat (sint height)) 0 pixels)))))"

text \<open>
  The smallest multiple of 256 that is at least \<open>n\<close>, as the specification describes the
  row pitch for \<open>n = 4 * width\<close>.
\<close>

definition align256 :: "nat \<Rightarrow> nat" where
  "align256 n = 256 * ((n + 255) div 256)"

text \<open>
  A state in which handle 1 is a command list (object 12), handle 2 a render target
  (object 60) and handle 3 a readback buffer (object 61).
\<close>

definition readback_state :: process where
  "readback_state =
     \<lparr> objects = [1 \<mapsto> 12, 2 \<mapsto> 60, 3 \<mapsto> 61], nextHandle = 4,
       refcount = (\<lambda>_. 0)(12 := 2, 60 := 2, 61 := 2),
       received = (\<lambda>_. [])(12 := [Close, Reset 11 None]) \<rparr>"

text \<open>
  The bytes of a readback buffer that holds a 3 by 2 image with row pitch 256: the
  twelve bytes of row 0, 244 bytes of padding, the twelve bytes of row 1.
\<close>

definition small_buffer :: "jbyte list" where
  "small_buffer =
     [1, 0, 0, 0, 2, 0, 0, 0, 3, 0, 0, 0] @ replicate 244 0xFF @
     [4, 0, 0, 0, 5, 0, 0, 0, 6, 0, 0, 0]"

section \<open>Theorems\<close>

subsection \<open>The blend table\<close>

lemma GetBlendDesc_none: "BlendEnable (GetBlendDesc 0) = False"
  by (simp add: GetBlendDesc_def BLEND_NONE_def blend_desc_start_def)

lemma GetBlendDesc_alpha:
  "BlendEnable (GetBlendDesc 1) \<and>
   blend_triple (GetBlendDesc 1) =
     (D3D12_BLEND_SRC_ALPHA, D3D12_BLEND_INV_SRC_ALPHA, D3D12_BLEND_OP_ADD)"
  by (simp add: GetBlendDesc_def BLEND_NONE_def BLEND_ALPHA_def blend_desc_start_def
      blend_triple_def)

lemma GetBlendDesc_additive:
  "BlendEnable (GetBlendDesc 2) \<and>
   blend_triple (GetBlendDesc 2) =
     (D3D12_BLEND_SRC_ALPHA, D3D12_BLEND_ONE, D3D12_BLEND_OP_ADD)"
  by (simp add: GetBlendDesc_def BLEND_NONE_def BLEND_ALPHA_def BLEND_ADDITIVE_def
      blend_desc_start_def blend_triple_def)

lemma GetBlendDesc_multiply:
  "BlendEnable (GetBlendDesc 3) \<and>
   blend_triple (GetBlendDesc 3) =
     (D3D12_BLEND_DEST_COLOR, D3D12_BLEND_ZERO, D3D12_BLEND_OP_ADD)"
  by (simp add: GetBlendDesc_def BLEND_NONE_def BLEND_ALPHA_def BLEND_ADDITIVE_def
      BLEND_MULTIPLY_def blend_desc_start_def blend_triple_def)

lemma GetBlendDesc_premultiplied:
  "BlendEnable (GetBlendDesc 4) \<and>
   blend_triple (GetBlendDesc 4) =
     (D3D12_BLEND_ONE, D3D12_BLEND_INV_SRC_ALPHA, D3D12_BLEND_OP_ADD)"
  by (simp add: GetBlendDesc_def BLEND_NONE_def BLEND_ALPHA_def BLEND_ADDITIVE_def
      BLEND_MULTIPLY_def BLEND_PREMULTIPLIED_ALPHA_def blend_desc_start_def blend_triple_def)

text \<open>
  C4. For each of the five integer-coded blend modes \<open>GetBlendDesc\<close> produces the triple
  (source blend, destination blend, operation) of the fixed table: mode 0 disables
  blending; mode 1 is (src-alpha, inv-src-alpha, add); mode 2 is (src-alpha, one, add);
  mode 3 is (dest-color, zero, add); mode 4 is (one, inv-src-alpha, add). Modes 1 to 4
  enable blending.
\<close>

theorem C4_blend_table:
  "BlendEnable (GetBlendDesc 0) = False \<and>
   BlendEnable (GetBlendDesc 1) \<and>
   blend_triple (GetBlendDesc 1) =
     (D3D12_BLEND_SRC_ALPHA, D3D12_BLEND_INV_SRC_ALPHA, D3D12_BLEND_OP_ADD) \<and>
   BlendEnable (GetBlendDesc 2) \<and>
   blend_triple (GetBlendDesc 2) =
     (D3D12_BLEND_SRC_ALPHA, D3D12_BLEND_ONE, D3D12_BLEND_OP_ADD) \<and>
   BlendEnable (GetBlendDesc 3) \<and>
   blend_triple (GetBlendDesc 3) =
     (D3D12_BLEND_DEST_COLOR, D3D12_BLEND_ZERO, D3D12_BLEND_OP_ADD) \<and>
   BlendEnable (GetBlendDesc 4) \<and>
   blend_triple (GetBlendDesc 4) =
     (D3D12_BLEND_ONE, D3D12_BLEND_INV_SRC_ALPHA, D3D12_BLEND_OP_ADD)"
  using GetBlendDesc_none GetBlendDesc_alpha GetBlendDesc_additive GetBlendDesc_multiply
    GetBlendDesc_premultiplied
  by simp

subsection \<open>The handle registry\<close>

lemma LLONG_MAX_unat: "unat LLONG_MAX = 2 ^ 63 - 1"
  by (simp add: LLONG_MAX_def)

lemma unat_succ_handle:
  fixes n :: jlong
  assumes "unat n < 2 ^ 63"
  shows "unat (n + 1) = unat n + 1"
proof -
  have "unat n + unat (1 :: jlong) < 2 ^ LENGTH(64)"
    using assms by simp
  then have "unat (n + 1) = unat n + unat (1 :: jlong)"
    by (simp only: unat_add_lem [THEN iffD1])
  then show ?thesis by simp
qed

lemma store_Some_facts:
  assumes ok: "registry_ok s" and st: "store s (Some p) = Some (h, s')"
  shows "h = nextHandle s" and "h \<noteq> 0" and "objects s h = None"
    and "objects s' = (objects s)(h \<mapsto> p)"
    and "unat (nextHandle s') = unat (nextHandle s) + 1"
    and "refcount s' = (refcount s)(p := refcount s p + 1)"
    and "received s' = received s"
    and "registry_ok s'"
proof -
  from st have ne: "nextHandle s \<noteq> LLONG_MAX"
    by (auto simp: store_def split: if_splits)
  from st ne show h: "h = nextHandle s"
    by (auto simp: store_def)
  from st ne have s': "s' = s \<lparr> refcount := (refcount s)(p := refcount s p + 1),
                     objects := (objects s)(nextHandle s \<mapsto> p),
                     nextHandle := nextHandle s + 1 \<rparr>"
    by (auto simp: store_def)
  from ok have pos: "0 < unat (nextHandle s)" and lt: "unat (nextHandle s) < 2 ^ 63"
    and dom: "\<forall>k \<in> dom (objects s). 0 < unat k \<and> unat k < unat (nextHandle s)"
    by (auto simp: registry_ok_def)
  from pos h show "h \<noteq> 0" by auto
  from dom h show "objects s h = None"
    by (cases "objects s h") (auto simp: dom_def)
  from s' h show "objects s' = (objects s)(h \<mapsto> p)" by simp
  from s' show "refcount s' = (refcount s)(p := refcount s p + 1)" by simp
  from s' show "received s' = received s" by simp
  have suc: "unat (nextHandle s + 1) = unat (nextHandle s) + 1"
    using lt by (rule unat_succ_handle)
  from s' suc show n': "unat (nextHandle s') = unat (nextHandle s) + 1" by simp
  have "unat (nextHandle s) \<noteq> 2 ^ 63 - 1"
  proof
    assume "unat (nextHandle s) = 2 ^ 63 - 1"
    then have "unat (nextHandle s) = unat LLONG_MAX" by (simp add: LLONG_MAX_unat)
    then have "nextHandle s = LLONG_MAX" by (simp only: word_unat_eq_iff)
    with ne show False by simp
  qed
  with lt have lt': "unat (nextHandle s) + 1 < 2 ^ 63" by simp
  have "\<forall>k \<in> dom (objects s'). 0 < unat k \<and> unat k < unat (nextHandle s')"
  proof
    fix k assume "k \<in> dom (objects s')"
    then have "k = nextHandle s \<or> k \<in> dom (objects s)"
      using s' by (auto split: if_splits)
    then show "0 < unat k \<and> unat k < unat (nextHandle s')"
    proof
      assume "k = nextHandle s"
      with pos n' show ?thesis by simp
    next
      assume "k \<in> dom (objects s)"
      with dom have "0 < unat k \<and> unat k < unat (nextHandle s)" by (rule bspec)
      with n' show ?thesis by simp
    qed
  qed
  with n' lt' show "registry_ok s'"
    by (simp add: registry_ok_def)
qed

lemma store_None_obj: "store s None = Some (0, s)"
  by (simp add: store_def)

lemma release_absent: "objects s h = None \<Longrightarrow> release s h = s"
  by (simp add: release_def)

lemma release_objects: "objects (release s h) = (objects s)(h := None)"
  by (cases "objects s h") (auto simp: release_def)

lemma release_nextHandle: "nextHandle (release s h) = nextHandle s"
  by (cases "objects s h") (auto simp: release_def)

lemma release_ok: "registry_ok s \<Longrightarrow> registry_ok (release s h)"
  by (auto simp: registry_ok_def release_objects release_nextHandle dom_def)

lemma release_twice: "release (release s h) h = release s h"
  by (rule release_absent) (simp add: release_objects)

lemma init_ok: "registry_ok HandleManager_init"
  by (simp add: registry_ok_def HandleManager_init_def)

lemma step_facts:
  assumes ok: "registry_ok s" and st: "step s a = Some (e, s')"
  shows "registry_ok s'" and "unat (nextHandle s) \<le> unat (nextHandle s')"
    and "issued [e] = map word_of_nat [unat (nextHandle s)..<unat (nextHandle s')]"
proof -
  have "registry_ok s' \<and> unat (nextHandle s) \<le> unat (nextHandle s') \<and>
        issued [e] = map word_of_nat [unat (nextHandle s)..<unat (nextHandle s')]"
  proof (cases a)
    case (Store obj)
    show ?thesis
    proof (cases obj)
      case None
      with Store st show ?thesis using ok by (auto simp: store_None_obj)
    next
      case (Some p)
      with Store st obtain h where h: "store s (Some p) = Some (h, s')" and e: "e = Stored (Some p) h"
        by (auto split: option.splits)
      note f = store_Some_facts [OF ok h]
      have "[unat (nextHandle s)..<unat (nextHandle s')] = [unat (nextHandle s)]"
        using f(5) by simp
      with f e show ?thesis by simp
    qed
  next
    case (Get h)
    with st ok show ?thesis by auto
  next
    case (Release h)
    with st ok show ?thesis by (auto simp: release_ok release_nextHandle)
  qed
  then show "registry_ok s'" and "unat (nextHandle s) \<le> unat (nextHandle s')"
    and "issued [e] = map word_of_nat [unat (nextHandle s)..<unat (nextHandle s')]"
    by simp_all
qed

lemma issued_Cons: "issued (e # es) = issued [e] @ issued es"
proof (cases e)
  case (Stored obj h)
  then show ?thesis by (cases obj) auto
qed auto

lemma upt_split: "a \<le> b \<Longrightarrow> b \<le> c \<Longrightarrow> [a..<c] = [a..<b] @ [b..<c]"
  using upt_add_eq_append [of a b "c - b"] by simp

lemma issued_append: "issued (xs @ ys) = issued xs @ issued ys"
  by (induction xs rule: issued.induct) auto

lemma run_facts:
  assumes "registry_ok s" and "run s ops = Some (es, s')"
  shows "registry_ok s' \<and> unat (nextHandle s) \<le> unat (nextHandle s') \<and>
         issued es = map word_of_nat [unat (nextHandle s)..<unat (nextHandle s')]"
  using assms
proof (induction ops arbitrary: s es)
  case Nil
  then show ?case by simp
next
  case (Cons a ops)
  from Cons.prems(2) obtain e s1 es1 where
    st: "step s a = Some (e, s1)" and rn: "run s1 ops = Some (es1, s')" and es: "es = e # es1"
    by (auto split: option.splits)
  note f = step_facts [OF Cons.prems(1) st]
  note ih = Cons.IH [OF f(1) rn]
  have "[unat (nextHandle s)..<unat (nextHandle s')] =
        [unat (nextHandle s)..<unat (nextHandle s1)] @ [unat (nextHandle s1)..<unat (nextHandle s')]"
    using f(2) ih by (intro upt_split) simp_all
  moreover have "issued es = issued [e] @ issued es1"
    unfolding es by (rule issued_Cons)
  ultimately show ?case
    using f ih by (simp del: upt_Suc)
qed

lemma sint_handle_of_nat:
  assumes "n < 2 ^ 63"
  shows "sint (word_of_nat n :: jlong) = int n"
proof -
  have "signed_take_bit (LENGTH(64) - 1) (int n) = int n"
    by (rule signed_take_bit_int_eq_self) (use assms in simp_all)
  then have "sint (word_of_int (int n) :: jlong) = int n"
    by (simp only: sint_sbintrunc')
  then show ?thesis by simp
qed

lemma unat_handle_of_nat:
  assumes "n < 2 ^ 63"
  shows "unat (word_of_nat n :: jlong) = n"
  using assms by (simp add: unat_of_nat)

lemma sorted_handles_upt:
  assumes "b \<le> 2 ^ 63"
  shows "sorted_wrt (<) (map (\<lambda>n. sint (word_of_nat n :: jlong)) [a..<b])"
proof -
  have "map (\<lambda>n. sint (word_of_nat n :: jlong)) [a..<b] = map int [a..<b]"
    using assms by (intro map_cong refl sint_handle_of_nat) simp
  moreover have "sorted_wrt (<) (map int [a..<b])"
    by (simp add: sorted_wrt_map)
  ultimately show ?thesis by (simp only:)
qed

lemma run_sorted:
  assumes "registry_ok s" and "run s ops = Some (es, s')"
  shows "sorted_wrt (<) (map sint (issued es))"
proof -
  note f = run_facts [OF assms]
  from f have "unat (nextHandle s') \<le> 2 ^ 63" by (simp add: registry_ok_def)
  then have "sorted_wrt (<) (map (\<lambda>n. sint (word_of_nat n :: jlong))
      [unat (nextHandle s)..<unat (nextHandle s')])"
    by (rule sorted_handles_upt)
  with f show ?thesis by (simp add: comp_def)
qed

lemma issued_range:
  assumes "registry_ok s" and "run s ops = Some (es, s')" and "h \<in> set (issued es)"
  shows "unat (nextHandle s) \<le> unat h \<and> unat h < unat (nextHandle s')"
proof -
  note f = run_facts [OF assms(1,2)]
  from f assms(3) obtain n where n: "unat (nextHandle s) \<le> n" "n < unat (nextHandle s')"
    and h: "h = word_of_nat n"
    by auto
  from f n have "n < 2 ^ 63" by (simp add: registry_ok_def)
  with h have "unat h = n" by (simp add: unat_handle_of_nat)
  with n show ?thesis by simp
qed

lemma run_dom:
  assumes "registry_ok s" and "run s ops = Some (es, s')"
  shows "dom (objects s') \<subseteq> dom (objects s) \<union> set (issued es)"
  using assms
proof (induction ops arbitrary: s es)
  case Nil
  then show ?case by simp
next
  case (Cons a ops)
  from Cons.prems(2) obtain e s1 es1 where
    st: "step s a = Some (e, s1)" and rn: "run s1 ops = Some (es1, s')" and es: "es = e # es1"
    by (auto split: option.splits)
  note f = step_facts [OF Cons.prems(1) st]
  note ih = Cons.IH [OF f(1) rn]
  have "dom (objects s1) \<subseteq> dom (objects s) \<union> set (issued [e])"
  proof (cases a)
    case (Store obj)
    show ?thesis
    proof (cases obj)
      case None
      with Store st show ?thesis by (auto simp: store_None_obj)
    next
      case (Some p)
      with Store st obtain h where h: "store s (Some p) = Some (h, s1)" and e: "e = Stored (Some p) h"
        by (auto split: option.splits)
      note g = store_Some_facts [OF Cons.prems(1) h]
      from g(4) e show ?thesis by auto
    qed
  next
    case (Get h)
    with st show ?thesis by auto
  next
    case (Release h)
    with st show ?thesis by (auto simp: release_objects split: if_splits)
  qed
  moreover have "issued es = issued [e] @ issued es1"
    unfolding es by (rule issued_Cons)
  ultimately show ?case using ih by (simp only: set_append) blast
qed

lemma run_absent_stays:
  assumes "registry_ok s" and "run s ops = Some (es, s')"
    and "unat h < unat (nextHandle s)" and "objects s h = None"
  shows "objects s' h = None"
  using assms
proof (induction ops arbitrary: s es)
  case Nil
  then show ?case by simp
next
  case (Cons a ops)
  from Cons.prems(2) obtain e s1 es1 where
    st: "step s a = Some (e, s1)" and rn: "run s1 ops = Some (es1, s')" and es: "es = e # es1"
    by (auto split: option.splits)
  note f = step_facts [OF Cons.prems(1) st]
  have lt: "unat h < unat (nextHandle s1)"
    using f(2) Cons.prems(3) by simp
  have "objects s1 h = None"
  proof (cases a)
    case (Store obj)
    show ?thesis
    proof (cases obj)
      case None
      with Store st Cons.prems(4) show ?thesis by (auto simp: store_None_obj)
    next
      case (Some p)
      with Store st obtain k where k: "store s (Some p) = Some (k, s1)"
        by (auto split: option.splits)
      note g = store_Some_facts [OF Cons.prems(1) k]
      from g(1) Cons.prems(3) have "h \<noteq> k" by auto
      with g(4) Cons.prems(4) show ?thesis by simp
    qed
  next
    case (Get k)
    with st Cons.prems(4) show ?thesis by auto
  next
    case (Release k)
    with st Cons.prems(4) show ?thesis by (auto simp: release_objects)
  qed
  with Cons.IH [OF f(1) rn lt] show ?case by simp
qed

lemma run_length: "run s ops = Some (es, s') \<Longrightarrow> length es = length ops"
  by (induction ops arbitrary: s es) (auto split: option.splits)

lemma run_split:
  assumes "run s ops = Some (es1 @ es2, s')"
  shows "\<exists>ops1 ops2 s1. ops = ops1 @ ops2 \<and> run s ops1 = Some (es1, s1) \<and>
           run s1 ops2 = Some (es2, s')"
  using assms
proof (induction es1 arbitrary: s ops)
  case Nil
  then show ?case by (intro exI [of _ "[]"] exI [of _ ops] exI [of _ s]) simp
next
  case (Cons e es1)
  from Cons.prems obtain a ops' where ops: "ops = a # ops'"
    by (cases ops) auto
  with Cons.prems obtain s1 where st: "step s a = Some (e, s1)"
    and rn: "run s1 ops' = Some (es1 @ es2, s')"
    by (auto split: option.splits)
  from Cons.IH [OF rn] obtain ops1 ops2 s2 where
    o: "ops' = ops1 @ ops2" and r1: "run s1 ops1 = Some (es1, s2)"
    and r2: "run s2 ops2 = Some (es2, s')"
    by blast
  show ?case
    using ops o st r1 r2
    by (intro exI [of _ "a # ops1"] exI [of _ ops2] exI [of _ s2]) simp
qed

lemma step_Stored:
  assumes "registry_ok s" and "run s [a] = Some ([Stored (Some p) h], s')"
  shows "h = nextHandle s \<and> unat (nextHandle s') = unat (nextHandle s) + 1"
proof -
  from assms(2) have "store s (Some p) = Some (h, s')"
    by (cases a) (auto split: option.splits)
  from store_Some_facts [OF assms(1) this] show ?thesis by simp
qed

lemma step_Released:
  assumes "run s [a] = Some ([Released h], s')"
  shows "s' = release s h"
  using assms by (cases a) (auto split: option.splits)

lemma released_after_issue_absent:
  assumes ok: "registry_ok s"
    and rn: "run s ops = Some (es1 @ Stored (Some p) h # es2, s')"
    and rel: "Released h \<in> set es2"
  shows "objects s' h = None"
proof -
  from rel obtain es3 es4 where es2: "es2 = es3 @ Released h # es4"
    by (auto simp: in_set_conv_decomp)
  from run_split [OF rn] obtain ops1 opsA s1 where
    r1: "run s ops1 = Some (es1, s1)" and rA: "run s1 opsA = Some (Stored (Some p) h # es2, s')"
    by blast
  from rA have "run s1 opsA = Some ([Stored (Some p) h] @ es2, s')" by simp
  from run_split [OF this] obtain ops2 opsB s2 where
    r2: "run s1 ops2 = Some ([Stored (Some p) h], s2)" and rB: "run s2 opsB = Some (es2, s')"
    by blast
  from rB es2 have "run s2 opsB = Some (es3 @ Released h # es4, s')" by simp
  from run_split [OF this] obtain ops3 opsC s3 where
    r3: "run s2 ops3 = Some (es3, s3)" and rC: "run s3 opsC = Some (Released h # es4, s')"
    by blast
  from rC have "run s3 opsC = Some ([Released h] @ es4, s')" by simp
  from run_split [OF this] obtain ops4 ops5 s4 where
    r4: "run s3 ops4 = Some ([Released h], s4)" and r5: "run s4 ops5 = Some (es4, s')"
    by blast
  have ok1: "registry_ok s1" using run_facts [OF ok r1] by simp
  have ok2: "registry_ok s2" using run_facts [OF ok1 r2] by simp
  have ok3: "registry_ok s3" using run_facts [OF ok2 r3] by simp
  have ok4: "registry_ok s4" using run_facts [OF ok3 r4] by simp
  from r2 have len2: "length ops2 = 1" by (auto dest: run_length)
  then obtain a2 where "ops2 = [a2]" by (cases ops2) auto
  with r2 have "run s1 [a2] = Some ([Stored (Some p) h], s2)" by simp
  from step_Stored [OF ok1 this] have "unat h < unat (nextHandle s2)" by simp
  moreover have "unat (nextHandle s2) \<le> unat (nextHandle s3)"
    using run_facts [OF ok2 r3] by simp
  moreover have "unat (nextHandle s3) \<le> unat (nextHandle s4)"
    using run_facts [OF ok3 r4] by simp
  ultimately have lt: "unat h < unat (nextHandle s4)" by simp
  from r4 have "length ops4 = 1" by (auto dest: run_length)
  then obtain a4 where "ops4 = [a4]" by (cases ops4) auto
  with r4 have "run s3 [a4] = Some ([Released h], s4)" by simp
  then have "s4 = release s3 h" by (rule step_Released)
  then have "objects s4 h = None" by (simp add: release_objects)
  from run_absent_stays [OF ok4 r5 lt this] show ?thesis .
qed

lemma never_issued_absent:
  assumes "run HandleManager_init ops = Some (es, s)" and "h \<notin> set (issued es)"
  shows "objects s h = None"
proof -
  from run_dom [OF init_ok assms(1)] have "dom (objects s) \<subseteq> set (issued es)"
    by (simp add: HandleManager_init_def)
  with assms(2) show ?thesis by auto
qed

lemma zero_absent:
  assumes "registry_ok s"
  shows "objects s 0 = None"
proof (cases "objects s 0")
  case (Some y)
  then have "0 \<in> dom (objects s)" by auto
  with assms have "0 < unat (0 :: jlong)" unfolding registry_ok_def by blast
  then show ?thesis by simp
qed simp

lemma destroy_calls_release: "d \<in> set destroy_calls \<Longrightarrow> d = release"
  by (auto simp: destroy_calls_def destroyDevice_def destroyCommandQueue_def
      destroyCommandAllocator_def destroyCommandList_def destroyFence_def
      destroyRootSignature_def destroyDescriptorHeap_def destroyResource_def
      destroyPipelineState_def destroyBuffer_def destroyTexture_def fun_eq_iff)

lemma run_defined:
  assumes "registry_ok s" and "unat (nextHandle s) + length ops < 2 ^ 63"
  shows "\<exists>es s'. run s ops = Some (es, s')"
  using assms
proof (induction ops arbitrary: s)
  case Nil
  then show ?case by simp
next
  case (Cons a ops)
  have "\<exists>e s1. step s a = Some (e, s1)"
  proof (cases a)
    case (Store obj)
    show ?thesis
    proof (cases obj)
      case None
      with Store show ?thesis by (simp add: store_None_obj)
    next
      case (Some p)
      have "nextHandle s \<noteq> LLONG_MAX"
      proof
        assume "nextHandle s = LLONG_MAX"
        then have "unat (nextHandle s) = 2 ^ 63 - 1" by (simp add: LLONG_MAX_unat)
        with Cons.prems(2) show False by simp
      qed
      with Store Some show ?thesis by (simp add: store_def)
    qed
  qed simp_all
  then obtain e s1 where st: "step s a = Some (e, s1)" by blast
  note f = step_facts [OF Cons.prems(1) st]
  have "unat (nextHandle s1) \<le> unat (nextHandle s) + 1"
  proof -
    from f(3) have "length (issued [e]) = unat (nextHandle s1) - unat (nextHandle s)"
      by (simp del: upt_Suc)
    moreover have "length (issued [e]) \<le> 1"
    proof (cases e)
      case (Stored obj h)
      then show ?thesis by (cases obj) simp_all
    qed simp_all
    ultimately show ?thesis by simp
  qed
  with Cons.prems(2) have "unat (nextHandle s1) + length ops < 2 ^ 63" by simp
  from Cons.IH [OF f(1) this] obtain es s' where "run s1 ops = Some (es, s')" by blast
  with st show ?case by simp
qed

lemma sorted_less_distinct: "sorted_wrt (<) (xs :: int list) \<Longrightarrow> distinct xs"
  by (induction xs) auto

text \<open>
  C10. The handle counter is strictly monotone: in every sequence of store, get and
  release operations on a fresh registry, each store of a non-null object returns a handle
  strictly greater (as a signed 64-bit number) than every handle issued before it, so
  no handle value is issued twice, also after its object has been released. The
  hypothesis says that the sequence runs, which every sequence of fewer than \<open>2^63 - 1\<close>
  operations does (\<open>run_defined\<close>); a sequence stops running only where \<open>nextHandle_++\<close>
  would overflow the signed counter.
\<close>

theorem C10_handles_strictly_increase:
  assumes "run HandleManager_init ops = Some (es, s)"
  shows "sorted_wrt (<) (map sint (issued es)) \<and> distinct (issued es)"
proof -
  have srt: "sorted_wrt (<) (map sint (issued es))"
    using init_ok assms by (rule run_sorted)
  then have "distinct (map sint (issued es))"
    by (rule sorted_less_distinct)
  then have "distinct (issued es)" by (simp add: distinct_map)
  with srt show ?thesis by simp
qed

lemma run_example:
  "run HandleManager_init [Store (Some 7), Release 1, Store (Some 9)] =
     Some ([Stored (Some 7) 1, Released 1, Stored (Some 9) 2],
       \<lparr> objects = [2 \<mapsto> 9], nextHandle = 3,
         refcount = (\<lambda>_. 0)(9 := 1), received = (\<lambda>_. []) \<rparr>)"
  by (simp add: HandleManager_init_def store_def release_def LLONG_MAX_def fun_eq_iff)

theorem C10_witness:
  "run HandleManager_init [Store (Some 7), Release 1, Store (Some 9)] =
     Some ([Stored (Some 7) 1, Released 1, Stored (Some 9) 2],
       \<lparr> objects = [2 \<mapsto> 9], nextHandle = 3,
         refcount = (\<lambda>_. 0)(9 := 1), received = (\<lambda>_. []) \<rparr>) \<and>
   sorted_wrt (<) (map sint (issued [Stored (Some 7) 1, Released 1, Stored (Some 9) 2])) \<and>
   distinct (issued [Stored (Some 7) 1, Released 1, Stored (Some 9) 2])"
  using C10_handles_strictly_increase [OF run_example] run_example by simp

text \<open>
  C2. After any sequence of store, get and release operations on a fresh registry, a
  store of a non-null object returns a handle that is not zero, that was never issued
  before in the sequence, and that names no live object at that moment; afterwards it
  names the stored object, and every other handle names what it named before, so no
  live object loses its handle to another one. The hypotheses say that the sequence and
  the store run, that is, that the signed counter has not reached \<open>LLONG_MAX\<close>
  (\<open>run_defined\<close>).
\<close>

theorem C2_store_issues_fresh_handle:
  assumes "run HandleManager_init ops = Some (es, s)"
    and "store s (Some p) = Some (h, s')"
  shows "h \<noteq> 0 \<and> h \<notin> set (issued es) \<and> get s h = None \<and>
         get s' h = Some p \<and> (\<forall>k. k \<noteq> h \<longrightarrow> get s' k = get s k)"
proof -
  have ok: "registry_ok s" using run_facts [OF init_ok assms(1)] by simp
  note f = store_Some_facts [OF ok assms(2)]
  have "h \<notin> set (issued es)"
  proof
    assume "h \<in> set (issued es)"
    from issued_range [OF init_ok assms(1) this] f(1) show False by simp
  qed
  with f show ?thesis by (simp add: get_def)
qed

theorem C2_witness:
  "run HandleManager_init [Store (Some 7), Release 1, Store (Some 9)] =
     Some ([Stored (Some 7) 1, Released 1, Stored (Some 9) 2],
       \<lparr> objects = [2 \<mapsto> 9], nextHandle = 3,
         refcount = (\<lambda>_. 0)(9 := 1), received = (\<lambda>_. []) \<rparr>) \<and>
   store \<lparr> objects = [2 \<mapsto> 9], nextHandle = 3,
         refcount = (\<lambda>_. 0)(9 := 1), received = (\<lambda>_. []) \<rparr> (Some 9) =
     Some (3, \<lparr> objects = [2 \<mapsto> 9, 3 \<mapsto> 9], nextHandle = 4,
         refcount = (\<lambda>_. 0)(9 := 2), received = (\<lambda>_. []) \<rparr>) \<and>
   (3 :: jlong) \<noteq> 0 \<and>
   3 \<notin> set (issued [Stored (Some 7) 1, Released 1, Stored (Some 9) 2]) \<and>
   get \<lparr> objects = [2 \<mapsto> 9], nextHandle = 3,
         refcount = (\<lambda>_. 0)(9 := 1), received = (\<lambda>_. []) \<rparr> 3 = None \<and>
   get \<lparr> objects = [2 \<mapsto> 9, 3 \<mapsto> 9], nextHandle = 4,
         refcount = (\<lambda>_. 0)(9 := 2), received = (\<lambda>_. []) \<rparr> 3 = Some 9"
proof -
  have st: "store \<lparr> objects = [2 \<mapsto> 9], nextHandle = 3,
         refcount = (\<lambda>_. 0)(9 := 1), received = (\<lambda>_. []) \<rparr> (Some 9) =
     Some (3, \<lparr> objects = [2 \<mapsto> 9, 3 \<mapsto> 9], nextHandle = 4,
         refcount = (\<lambda>_. 0)(9 := 2), received = (\<lambda>_. []) \<rparr>)"
    by (simp add: store_def LLONG_MAX_def fun_eq_iff)
  from C2_store_issues_fresh_handle [OF run_example st] run_example st
  show ?thesis by simp
qed

text \<open>
  C3. After any sequence of operations on a fresh registry, let \<open>h\<close> be 0, or a handle
  that was never issued, or a handle that was issued and released afterwards. Then
  \<open>get h\<close> is null, \<open>release h\<close> leaves the state as it is, \<open>store\<close> of a null object
  returns 0 and changes nothing, every destroy entry point leaves the state as it is
  on \<open>h\<close>, and a destroy entry point applied twice to any handle does the second time
  nothing. The first hypothesis says that the sequence runs (\<open>run_defined\<close>).
\<close>

theorem C3_invalid_handles_are_inert:
  assumes "run HandleManager_init ops = Some (es, s)"
    and "h = 0 \<or> h \<notin> set (issued es) \<or>
         (\<exists>es1 p es2. es = es1 @ Stored (Some p) h # es2 \<and> Released h \<in> set es2)"
  shows "get s h = None \<and> release s h = s \<and> store s None = Some (0, s) \<and>
         (\<forall>d \<in> set destroy_calls. d s h = s \<and> (\<forall>k. d (d s k) k = d s k))"
proof -
  have ok: "registry_ok s" using run_facts [OF init_ok assms(1)] by simp
  from assms(2) have absent: "objects s h = None"
  proof (elim disjE exE conjE)
    assume "h = 0"
    with zero_absent [OF ok] show ?thesis by simp
  next
    assume "h \<notin> set (issued es)"
    with assms(1) show ?thesis by (rule never_issued_absent)
  next
    fix es1 p es2
    assume "es = es1 @ Stored (Some p) h # es2" and rel: "Released h \<in> set es2"
    with assms(1) have "run HandleManager_init ops = Some (es1 @ Stored (Some p) h # es2, s)"
      by simp
    from released_after_issue_absent [OF init_ok this rel] show ?thesis .
  qed
  then have "release s h = s" by (rule release_absent)
  moreover have "\<forall>d \<in> set destroy_calls. d s h = s \<and> (\<forall>k. d (d s k) k = d s k)"
  proof
    fix d assume "d \<in> set destroy_calls"
    then have "d = release" by (rule destroy_calls_release)
    with \<open>release s h = s\<close> show "d s h = s \<and> (\<forall>k. d (d s k) k = d s k)"
      by (simp add: release_twice)
  qed
  ultimately show ?thesis using absent by (simp add: get_def store_None_obj)
qed

theorem C3_witness:
  "run HandleManager_init [Store (Some 7), Release 1, Store (Some 9)] =
     Some ([Stored (Some 7) 1, Released 1, Stored (Some 9) 2],
       \<lparr> objects = [2 \<mapsto> 9], nextHandle = 3,
         refcount = (\<lambda>_. 0)(9 := 1), received = (\<lambda>_. []) \<rparr>) \<and>
   Released 1 \<in> set [Released 1, Stored (Some 9) 2] \<and>
   get \<lparr> objects = [2 \<mapsto> 9], nextHandle = 3,
         refcount = (\<lambda>_. 0)(9 := 1), received = (\<lambda>_. []) \<rparr> 1 = None \<and>
   release \<lparr> objects = [2 \<mapsto> 9], nextHandle = 3,
         refcount = (\<lambda>_. 0)(9 := 1), received = (\<lambda>_. []) \<rparr> 1 =
     \<lparr> objects = [2 \<mapsto> 9], nextHandle = 3,
         refcount = (\<lambda>_. 0)(9 := 1), received = (\<lambda>_. []) \<rparr> \<and>
   destroyFence \<lparr> objects = [2 \<mapsto> 9], nextHandle = 3,
         refcount = (\<lambda>_. 0)(9 := 1), received = (\<lambda>_. []) \<rparr> 1 =
     \<lparr> objects = [2 \<mapsto> 9], nextHandle = 3,
         refcount = (\<lambda>_. 0)(9 := 1), received = (\<lambda>_. []) \<rparr>"
proof -
  have "\<exists>es1 p es2. [Stored (Some 7) 1, Released 1, Stored (Some 9) 2] =
          es1 @ Stored (Some p) (1 :: jlong) # es2 \<and> Released 1 \<in> set es2"
    by (intro exI [of _ "[]"] exI [of _ 7] exI [of _ "[Released 1, Stored (Some 9) 2]"]) simp
  then have "(1 :: jlong) = 0 \<or> 1 \<notin> set (issued [Stored (Some 7) 1, Released 1, Stored (Some 9) 2]) \<or>
         (\<exists>es1 p es2. [Stored (Some 7) 1, Released 1, Stored (Some 9) 2] =
          es1 @ Stored (Some p) (1 :: jlong) # es2 \<and> Released 1 \<in> set es2)"
    by blast
  from C3_invalid_handles_are_inert [OF run_example this] run_example
  show ?thesis by (simp add: destroy_calls_def)
qed

subsection \<open>Command lists\<close>

lemma received_call:
  "received (call s l c) l' = (if l' = l then received s l @ [c] else received s l')"
  by (simp add: call_def)


lemma call_registry:
  "objects (call s l c) = objects s" "nextHandle (call s l c) = nextHandle s"
  "get (call s l c) h = get s h"
  by (simp_all add: call_def get_def)

lemma closed_list_state_created:
  "createCommandList
     \<lparr> objects = [1 \<mapsto> 10, 2 \<mapsto> 11], nextHandle = 3,
       refcount = (\<lambda>_. 0)(10 := 2, 11 := 2, 12 := 1), received = (\<lambda>_. []) \<rparr>
     1 2 (Some 12) = Some (3, closed_list_state)"
  by (simp add: createCommandList_def get_def call_def store_def LLONG_MAX_def
      closed_list_state_def fun_eq_iff)

lemma closed_list_state_facts:
  "get closed_list_state 3 = Some 12" "get closed_list_state 2 = Some 11"
  "get closed_list_state 1 = Some 10" "get closed_list_state 0 = None"
  "get closed_list_state 9 = None"
  "received closed_list_state 12 = [Close]" "list_closed closed_list_state 12"
  by (simp_all add: closed_list_state_def get_def list_closed_def)

lemma recording_list_state_facts:
  "get recording_list_state 3 = Some 12"
  "received recording_list_state 12 = [Close, Reset 11 None]"
  "\<not> list_closed recording_list_state 12"
  by (simp_all add: recording_list_state_def resetCommandList_def closed_list_state_def
      get_def call_def list_closed_def)






text \<open>
  With \<open>rootParameterIndex = 1\<close> the call goes to root parameter 1, not 0; with
  \<open>offset = 4\<close> it writes from byte 16 of the block on, not from byte 4.
\<close>

theorem C9_counterexample:
  "get recording_list_state 3 = Some 12 \<and>
   constants_target
     (last (received (setGraphicsRoot32BitConstants recording_list_state 3 1 [5] 0) 12))
     \<noteq> Some (0, 0) \<and>
   constants_target
     (last (received (setGraphicsRoot32BitConstants recording_list_state 3 0 [5] 4) 12))
     \<noteq> Some (0, 4)"
  by (simp add: recording_list_state_facts setGraphicsRoot32BitConstants_def received_call)

text \<open>
  C9, amended. For every valid command list handle, every root parameter index, values
  array and offset, \<open>setGraphicsRoot32BitConstants\<close> makes one
  \<open>SetGraphicsRoot32BitConstants\<close> call on the native list: it names the root parameter
  given by the \<open>rootParameterIndex\<close> argument, sets as many values as the array holds,
  passes the whole array, and passes the \<open>offset\<close> argument as the destination offset
  counted in 32-bit values, so the first value lands at byte \<open>4 * offset\<close> of the block.
  Root parameter 0 of the root signature is the block of 20 constants. With a handle
  that does not resolve the entry point does nothing.
\<close>

theorem C9_root_constants_forwarded:
  "(get s h = Some l \<longrightarrow>
      received (setGraphicsRoot32BitConstants s h i vs off) l =
        received s l @ [SetGraphicsRoot32BitConstants i (word_of_nat (length vs)) vs off] \<and>
      constants_target (last (received (setGraphicsRoot32BitConstants s h i vs off) l)) =
        Some (unat i, 4 * unat off)) \<and>
   (get s h = None \<longrightarrow> setGraphicsRoot32BitConstants s h i vs off = s) \<and>
   rootParams ! 0 = ROOT_32BIT_CONSTANTS 0 0 20"
  by (simp add: setGraphicsRoot32BitConstants_def received_call rootParams_def)

theorem C9_witness:
  "get recording_list_state 3 = Some 12 \<and>
   received (setGraphicsRoot32BitConstants recording_list_state 3 0 [5, 6] 16) 12 =
     [Close, Reset 11 None, SetGraphicsRoot32BitConstants 0 2 [5, 6] 16] \<and>
   constants_target
     (last (received (setGraphicsRoot32BitConstants recording_list_state 3 0 [5, 6] 16) 12)) =
     Some (0, 64) \<and>
   get closed_list_state 9 = None \<and>
   setGraphicsRoot32BitConstants closed_list_state 9 0 [5, 6] 16 = closed_list_state"
  using C9_root_constants_forwarded [of recording_list_state 3 12 0 "[5, 6]" 16]
    C9_root_constants_forwarded [of closed_list_state 9 12 0 "[5, 6]" 16]
  by (simp add: recording_list_state_facts closed_list_state_facts)

subsection \<open>Fences\<close>

lemma wait_for_event_reaches:
  "wait_for_event v cs = Returned c \<Longrightarrow> v \<le> c"
  by (induction cs) (auto split: if_splits)

lemma waitForFence_event_ok:
  assumes "get s h = Some f" and "CreateEvent_result env \<noteq> None"
    and "waitForFence s h v env = Returned c"
  shows "v \<le> c"
  using assms
  by (auto simp: waitForFence_def not_less split: if_splits option.splits
      dest: wait_for_event_reaches)

text \<open>
  C1. The claim: for a valid fence handle, \<open>waitForFence\<close> returns only once the
  completed value has reached the requested one, whatever \<open>CreateEvent\<close> gives. The
  code at a failing input: the fence (handle 2) has completed value 0, the caller waits
  for 1, and \<open>CreateEvent\<close> returns \<open>NULL\<close>. The call returns at once, while
  \<open>getFenceCompletedValue\<close> is still 0. With an event, the same call returns when the
  value is 1.
\<close>

theorem C1_waitForFence_returns_early:
  "get fence_state 2 = Some 20 \<and>
   waitForFence fence_state 2 1
     \<lparr> completed_at_call = 0, CreateEvent_result = None, SetEventOnCompletion_ok = True,
       completed_later = [0, 1] \<rparr> = Returned 0 \<and>
   getFenceCompletedValue fence_state 2 0 = 0 \<and>
   \<not> (1 :: jlong) \<le> getFenceCompletedValue fence_state 2 0 \<and>
   waitForFence fence_state 2 1
     \<lparr> completed_at_call = 0, CreateEvent_result = Some 7, SetEventOnCompletion_ok = True,
       completed_later = [0, 1] \<rparr> = Returned 1"
  by (simp add: fence_state_def get_def waitForFence_def getFenceCompletedValue_def)

subsection \<open>Choosing the device\<close>

lemma loops_agree_first_capable:
  "isAvailable_loop as =
     (find (\<lambda>a. D3D12CreateDevice_result a \<noteq> None)
        (filter (\<lambda>a. Flags a AND DXGI_ADAPTER_FLAG_SOFTWARE = 0) as) \<noteq> None)"
  by (induction as) (auto split: option.splits)

lemma createDevice_loop_first_capable:
  "createDevice_loop s as =
     (case find (\<lambda>a. D3D12CreateDevice_result a \<noteq> None)
        (filter (\<lambda>a. Flags a AND DXGI_ADAPTER_FLAG_SOFTWARE = 0) as) of
        None \<Rightarrow> Some (0, s)
      | Some a \<Rightarrow> store s (D3D12CreateDevice_result a))"
  by (induction as) (auto split: option.splits)

lemma isAvailable_first_capable: "isAvailable env = (first_capable env \<noteq> None)"
  by (simp add: isAvailable_def first_capable_def loops_agree_first_capable)

lemma createDevice_first_capable:
  "createDevice env s =
     (case first_capable env of
        None \<Rightarrow> Some (0, s)
      | Some a \<Rightarrow> store s (D3D12CreateDevice_result a))"
  by (simp add: createDevice_def first_capable_def createDevice_loop_first_capable)

lemma first_capable_Some:
  "first_capable env = Some a \<Longrightarrow> \<exists>d. D3D12CreateDevice_result a = Some d"
  by (auto simp: first_capable_def find_Some_iff split: if_splits)

lemma store_defined:
  assumes "nextHandle s \<noteq> LLONG_MAX"
  shows "\<exists>h s'. store s (Some d) = Some (h, s')"
  using assms by (simp add: store_def)

text \<open>
  C8. \<open>createDevice\<close> and \<open>isAvailable\<close> walk the adapters in enumeration order, skip
  the software ones and stop at the first on which \<open>D3D12CreateDevice\<close> succeeds:
  \<open>isAvailable\<close> is true exactly when there is such an adapter; when there is none,
  \<open>createDevice\<close> returns the null handle and leaves the state as it was; when there is
  one, \<open>createDevice\<close> stores the device created on it. In a registry whose counter has
  not run out \<open>createDevice\<close> returns, the handle it returns for that device is the
  counter, it resolves to the device, the other handles resolve as before, and
  \<open>isAvailable\<close> is true exactly when the handle is not 0.
\<close>

theorem C8_device_selection:
  "(isAvailable env \<longleftrightarrow> first_capable env \<noteq> None) \<and>
   (first_capable env = None \<longrightarrow> createDevice env s = Some (0, s)) \<and>
   (\<forall>a. first_capable env = Some a \<longrightarrow>
      (\<exists>d. D3D12CreateDevice_result a = Some d \<and> createDevice env s = store s (Some d))) \<and>
   (registry_ok s \<and> nextHandle s \<noteq> LLONG_MAX \<longrightarrow>
      (\<exists>h s'. createDevice env s = Some (h, s') \<and> (isAvailable env \<longleftrightarrow> h \<noteq> 0) \<and>
         (case first_capable env of
            None \<Rightarrow> h = 0 \<and> s' = s
          | Some a \<Rightarrow> h = nextHandle s \<and> get s' h = D3D12CreateDevice_result a \<and>
              get s' h \<noteq> None \<and> (\<forall>k. k \<noteq> h \<longrightarrow> get s' k = get s k)))) \<and>
   (registry_ok s \<longrightarrow>
      (\<forall>h s'. createDevice env s = Some (h, s') \<longrightarrow> (isAvailable env \<longleftrightarrow> h \<noteq> 0)))"
proof (intro conjI impI allI)
  show "isAvailable env \<longleftrightarrow> first_capable env \<noteq> None"
    by (rule isAvailable_first_capable)
next
  assume "first_capable env = None"
  then show "createDevice env s = Some (0, s)"
    by (simp add: createDevice_first_capable)
next
  fix a assume a: "first_capable env = Some a"
  then obtain d where d: "D3D12CreateDevice_result a = Some d"
    by (auto dest: first_capable_Some)
  with a have "createDevice env s = store s (Some d)"
    by (simp add: createDevice_first_capable)
  with d show "\<exists>d. D3D12CreateDevice_result a = Some d \<and> createDevice env s = store s (Some d)"
    by blast
next
  assume h: "registry_ok s \<and> nextHandle s \<noteq> LLONG_MAX"
  show "\<exists>h s'. createDevice env s = Some (h, s') \<and> (isAvailable env \<longleftrightarrow> h \<noteq> 0) \<and>
         (case first_capable env of
            None \<Rightarrow> h = 0 \<and> s' = s
          | Some a \<Rightarrow> h = nextHandle s \<and> get s' h = D3D12CreateDevice_result a \<and>
              get s' h \<noteq> None \<and> (\<forall>k. k \<noteq> h \<longrightarrow> get s' k = get s k))"
  proof (cases "first_capable env")
    case None
    then show ?thesis
      by (simp add: createDevice_first_capable isAvailable_first_capable)
  next
    case (Some a)
    then obtain d where d: "D3D12CreateDevice_result a = Some d"
      by (auto dest: first_capable_Some)
    from h store_defined obtain k s1 where st: "store s (Some d) = Some (k, s1)"
      by blast
    from h have ok: "registry_ok s" by simp
    note f = store_Some_facts [OF ok st]
    have "createDevice env s = Some (k, s1)"
      using Some d st by (simp add: createDevice_first_capable)
    moreover have "isAvailable env \<longleftrightarrow> k \<noteq> 0"
      using Some f(2) by (simp add: isAvailable_first_capable)
    moreover have "k = nextHandle s \<and> get s1 k = D3D12CreateDevice_result a \<and>
              get s1 k \<noteq> None \<and> (\<forall>j. j \<noteq> k \<longrightarrow> get s1 j = get s j)"
      using f(1) f(4) d by (simp add: get_def)
    ultimately show ?thesis using Some
      by (intro exI [of _ k] exI [of _ s1]) auto
  qed
next
  fix h s'
  assume ok: "registry_ok s" and cr: "createDevice env s = Some (h, s')"
  show "isAvailable env \<longleftrightarrow> h \<noteq> 0"
  proof (cases "first_capable env")
    case None
    with cr show ?thesis
      by (simp add: createDevice_first_capable isAvailable_first_capable)
  next
    case (Some a)
    then obtain d where d: "D3D12CreateDevice_result a = Some d"
      by (auto dest: first_capable_Some)
    with Some cr have st: "store s (Some d) = Some (h, s')"
      by (simp add: createDevice_first_capable)
    from store_Some_facts(2) [OF ok st] Some show ?thesis
      by (simp add: isAvailable_first_capable)
  qed
qed

lemma three_adapters_created:
  "createDevice three_adapters HandleManager_init =
     Some (1, \<lparr> objects = [1 \<mapsto> 41], nextHandle = 2,
                refcount = (\<lambda>_. 0)(41 := 1), received = (\<lambda>_. []) \<rparr>)"
  by (simp add: createDevice_def three_adapters_def DXGI_ADAPTER_FLAG_SOFTWARE_def
      HandleManager_init_def store_def LLONG_MAX_def)

lemma software_only_facts:
  "first_capable software_only = None" "\<not> isAvailable software_only"
  "createDevice software_only HandleManager_init = Some (0, HandleManager_init)"
  by (simp_all add: first_capable_def isAvailable_def createDevice_def software_only_def
      DXGI_ADAPTER_FLAG_SOFTWARE_def)

theorem C8_witness:
  "registry_ok HandleManager_init \<and> nextHandle HandleManager_init \<noteq> LLONG_MAX \<and>
   first_capable software_only = None \<and> \<not> isAvailable software_only \<and>
   createDevice software_only HandleManager_init = Some (0, HandleManager_init) \<and>
   first_capable three_adapters =
     Some \<lparr> Flags = 0, D3D12CreateDevice_result = Some 41 \<rparr> \<and>
   isAvailable three_adapters \<and>
   createDevice three_adapters HandleManager_init =
     Some (1, \<lparr> objects = [1 \<mapsto> 41], nextHandle = 2,
                refcount = (\<lambda>_. 0)(41 := 1), received = (\<lambda>_. []) \<rparr>) \<and>
   get \<lparr> objects = [1 \<mapsto> 41], nextHandle = 2,
         refcount = (\<lambda>_. 0)(41 := 1), received = (\<lambda>_. []) \<rparr> 1 = Some 41"
proof -
  have fc: "first_capable three_adapters =
      Some \<lparr> Flags = 0, D3D12CreateDevice_result = Some 41 \<rparr>"
    by (simp add: first_capable_def three_adapters_def DXGI_ADAPTER_FLAG_SOFTWARE_def)
  have ne: "nextHandle HandleManager_init \<noteq> LLONG_MAX"
    by (simp add: HandleManager_init_def LLONG_MAX_def)
  from C8_device_selection [of software_only HandleManager_init]
    C8_device_selection [of three_adapters HandleManager_init]
    fc ne init_ok three_adapters_created software_only_facts
  show ?thesis by (simp add: get_def)
qed

subsection \<open>Pipeline state objects\<close>

lemma inputLayout_loop_take:
  "i + length formats \<le> length offsets \<Longrightarrow>
   inputLayout_loop i formats (take (i + length formats) offsets) =
     inputLayout_loop i formats offsets"
proof (induction formats arbitrary: i)
  case Nil
  then show ?case by simp
next
  case (Cons fmt fmts)
  have "inputLayout_loop (Suc i) fmts (take (Suc i + length fmts) offsets) =
        inputLayout_loop (Suc i) fmts offsets"
    using Cons.prems by (intro Cons.IH) simp
  with Cons.prems show ?case by (simp cong: option.case_cong)
qed

lemma inputLayout_loop_defined:
  "i + length formats \<le> length offsets \<Longrightarrow> \<exists>elems. inputLayout_loop i formats offsets = Some elems"
proof (induction formats arbitrary: i)
  case Nil
  then show ?case by simp
next
  case (Cons fmt fmts)
  from Cons.prems have "Suc i + length fmts \<le> length offsets" by simp
  from Cons.IH [OF this] obtain elems where "inputLayout_loop (Suc i) fmts offsets = Some elems"
    by blast
  with Cons.prems show ?case by simp
qed

lemma createPipelineState_surplus_offsets:
  assumes "length formats \<le> length offsets"
  shows "createPipelineState N s d r vs ps tt bm formats offsets stride =
         createPipelineState N s d r vs ps tt bm formats (take (length formats) offsets) stride"
  using inputLayout_loop_take [of 0 formats offsets] assms
  by (simp add: createPipelineState_def cong: option.case_cong)

lemma createPipelineState_null_unchanged:
  assumes "registry_ok s"
    and "createPipelineState N s d r vs ps tt bm formats offsets stride = Some (0, s')"
  shows "s' = s"
proof -
  { fix pso assume "store s (Some pso) = Some (0, s')"
    from store_Some_facts(2) [OF assms(1) this] have False by simp }
  with assms(2) show ?thesis
    by (auto simp: createPipelineState_def split: option.splits)
qed

lemma pso_state_facts:
  "get pso_state 1 = Some 10" "get pso_state 2 = Some 30" "get pso_state 9 = None"
  "registry_ok pso_state"
  by (simp_all add: pso_state_def get_def registry_ok_def)

lemma pso_state_surplus:
  "createPipelineState compiles_all pso_state 1 2 [] [] 3 1 [6] [0, 12] 12 =
     Some (3, \<lparr> objects = [1 \<mapsto> 10, 2 \<mapsto> 30, 3 \<mapsto> 50], nextHandle = 4,
                refcount = (\<lambda>_. 0)(10 := 2, 30 := 2, 50 := 1),
                received = (\<lambda>_. []) \<rparr>)"
  by (simp add: createPipelineState_def pso_state_def get_def compiles_all_def store_def
      LLONG_MAX_def)

lemma pso_state_invalid_device:
  "createPipelineState compiles_all pso_state 9 2 [] [] 3 1 [6] [0] 12 = Some (0, pso_state)"
  by (simp add: createPipelineState_def pso_state_facts)

text \<open>
  One format and two offsets, a valid device and root signature, and a runtime that
  compiles the description: the call returns handle 3, not the null handle.
\<close>

theorem C6_counterexample:
  "length [6 :: jint] \<noteq> length [0, 12 :: jint] \<and>
   get pso_state 1 = Some 10 \<and> get pso_state 2 = Some 30 \<and>
   map_option fst (createPipelineState compiles_all pso_state 1 2 [] [] 3 1 [6] [0, 12] 12) =
     Some 3 \<and>
   (3 :: jlong) \<noteq> 0"
  using pso_state_surplus by (simp add: pso_state_facts)

lemma inputLayout_loop_closed_form:
  "i + length fmts \<le> length offsets \<Longrightarrow>
   inputLayout_loop i fmts offsets =
     Some (map (\<lambda>j. input_element (i + j) (fmts ! j) (offsets ! (i + j))) [0..<length fmts])"
proof (induction fmts arbitrary: i)
  case Nil
  then show ?case by simp
next
  case (Cons fmt fmts)
  from Cons.prems have "Suc i + length fmts \<le> length offsets" by simp
  from Cons.IH [OF this] have ih: "inputLayout_loop (Suc i) fmts offsets =
     Some (map (\<lambda>j. input_element (Suc i + j) (fmts ! j) (offsets ! (Suc i + j)))
       [0..<length fmts])" .
  have "map (\<lambda>j. input_element (i + j) ((fmt # fmts) ! j) (offsets ! (i + j)))
          [0..<length (fmt # fmts)] =
        input_element i fmt (offsets ! i) #
        map (\<lambda>j. input_element (Suc i + j) (fmts ! j) (offsets ! (Suc i + j))) [0..<length fmts]"
    by (simp add: upt_conv_Cons map_Suc_upt [symmetric] del: upt_Suc)
  with ih Cons.prems show ?case by simp
qed

lemma inputLayout_attribute_layout:
  "length formats \<le> length offsets \<Longrightarrow>
   inputLayout_loop 0 formats offsets = Some (attribute_layout formats offsets)"
  using inputLayout_loop_closed_form [of 0 formats offsets]
  by (simp add: attribute_layout_def)

text \<open>
  C6, amended. \<open>createPipelineState\<close> never compares the lengths of the two arrays.
  With a device or root-signature handle that does not resolve it returns the null
  handle and leaves the state as it was. When the offsets array is at least as long as
  the formats array, the input layout has one element for each format, built from the
  offset at the same index, and the surplus offsets are ignored: the call is the call
  with the offsets cut to the length of the formats. With a valid device and root
  signature the call then returns the null handle, leaving the state as it was, when
  the native creation fails on the description with that layout, and stores the new
  pipeline state when it succeeds; in a registry whose counter has not run out it
  returns, and the handle is 0 exactly when the native creation fails. Every call that
  returns the null handle leaves the state as it was. (What happens when the offsets
  array is the shorter one is not part of this statement.)
\<close>

theorem C6_surplus_offsets_ignored:
  "(get s d = None \<or> get s r = None \<longrightarrow>
      createPipelineState N s d r vs ps tt bm formats offsets stride = Some (0, s)) \<and>
   (length formats \<le> length offsets \<longrightarrow>
      createPipelineState N s d r vs ps tt bm formats offsets stride =
        createPipelineState N s d r vs ps tt bm formats (take (length formats) offsets) stride \<and>
      inputLayout_loop 0 formats offsets = Some (attribute_layout formats offsets) \<and>
      length (attribute_layout formats offsets) = length formats \<and>
      (\<forall>device rootSig. get s d = Some device \<and> get s r = Some rootSig \<longrightarrow>
         createPipelineState N s d r vs ps tt bm formats offsets stride =
           (case N device
                   (psoDesc rootSig vs ps (attribute_layout formats offsets) tt bm) of
              None \<Rightarrow> Some (0, s)
            | Some pso \<Rightarrow> store s (Some pso)))) \<and>
   (registry_ok s \<longrightarrow>
      (\<forall>s'. createPipelineState N s d r vs ps tt bm formats offsets stride = Some (0, s') \<longrightarrow>
         s' = s)) \<and>
   (registry_ok s \<and> nextHandle s \<noteq> LLONG_MAX \<and> length formats \<le> length offsets \<longrightarrow>
      (\<forall>device rootSig. get s d = Some device \<and> get s r = Some rootSig \<longrightarrow>
         (\<exists>h s''. createPipelineState N s d r vs ps tt bm formats offsets stride =
              Some (h, s'') \<and>
            (h = 0 \<longleftrightarrow>
               N device (psoDesc rootSig vs ps (attribute_layout formats offsets) tt bm) = None) \<and>
            (h = 0 \<longrightarrow> s'' = s) \<and>
            (h \<noteq> 0 \<longrightarrow> get s'' h =
               N device (psoDesc rootSig vs ps (attribute_layout formats offsets) tt bm)))))"
proof (intro conjI impI allI)
  assume "get s d = None \<or> get s r = None"
  then show "createPipelineState N s d r vs ps tt bm formats offsets stride = Some (0, s)"
    by (auto simp: createPipelineState_def split: option.splits)
next
  assume "length formats \<le> length offsets"
  then show "createPipelineState N s d r vs ps tt bm formats offsets stride =
        createPipelineState N s d r vs ps tt bm formats (take (length formats) offsets) stride"
    by (rule createPipelineState_surplus_offsets)
next
  assume "length formats \<le> length offsets"
  then show "inputLayout_loop 0 formats offsets = Some (attribute_layout formats offsets)"
    by (rule inputLayout_attribute_layout)
next
  show "length (attribute_layout formats offsets) = length formats"
    by (simp add: attribute_layout_def)
next
  fix device rootSig
  assume le: "length formats \<le> length offsets"
    and g: "get s d = Some device \<and> get s r = Some rootSig"
  show "createPipelineState N s d r vs ps tt bm formats offsets stride =
           (case N device
                   (psoDesc rootSig vs ps (attribute_layout formats offsets) tt bm) of
              None \<Rightarrow> Some (0, s)
            | Some pso \<Rightarrow> store s (Some pso))"
    using g by (simp add: createPipelineState_def inputLayout_attribute_layout [OF le])
next
  fix s'
  assume "registry_ok s"
    and "createPipelineState N s d r vs ps tt bm formats offsets stride = Some (0, s')"
  then show "s' = s" by (rule createPipelineState_null_unchanged)
next
  fix device rootSig
  assume h: "registry_ok s \<and> nextHandle s \<noteq> LLONG_MAX \<and> length formats \<le> length offsets"
    and g: "get s d = Some device \<and> get s r = Some rootSig"
  let ?desc = "psoDesc rootSig vs ps (attribute_layout formats offsets) tt bm"
  from h have ok: "registry_ok s" and le: "length formats \<le> length offsets" by simp_all
  have eq: "createPipelineState N s d r vs ps tt bm formats offsets stride =
           (case N device ?desc of None \<Rightarrow> Some (0, s) | Some pso \<Rightarrow> store s (Some pso))"
    using g by (simp add: createPipelineState_def inputLayout_attribute_layout [OF le])
  show "\<exists>h s''. createPipelineState N s d r vs ps tt bm formats offsets stride =
              Some (h, s'') \<and>
            (h = 0 \<longleftrightarrow> N device ?desc = None) \<and> (h = 0 \<longrightarrow> s'' = s) \<and>
            (h \<noteq> 0 \<longrightarrow> get s'' h = N device ?desc)"
  proof (cases "N device ?desc")
    case None
    with eq show ?thesis by simp
  next
    case (Some pso)
    from h store_defined obtain k s1 where st: "store s (Some pso) = Some (k, s1)"
      by blast
    note f = store_Some_facts [OF ok st]
    from f(2) f(4) eq Some st show ?thesis
      by (intro exI [of _ k] exI [of _ s1]) (simp add: get_def)
  qed
qed

lemma pso_state_native_failure:
  "createPipelineState compiles_none pso_state 1 2 [] [] 3 1 [6] [0, 12] 12 =
     Some (0, pso_state)"
  by (simp add: createPipelineState_def pso_state_facts compiles_none_def)

lemma pso_state_layout:
  "attribute_layout [6] [0, 12] = [input_element 0 6 0]"
  by (simp add: attribute_layout_def)

theorem C6_witness:
  "length [6 :: jint] \<le> length [0, 12 :: jint] \<and> registry_ok pso_state \<and>
   nextHandle pso_state \<noteq> LLONG_MAX \<and>
   get pso_state 1 = Some 10 \<and> get pso_state 2 = Some 30 \<and> get pso_state 9 = None \<and>
   attribute_layout [6] [0, 12] = [input_element 0 6 0] \<and>
   inputLayout_loop 0 [6] [0, 12] = Some [input_element 0 6 0] \<and>
   createPipelineState compiles_all pso_state 1 2 [] [] 3 1 [6] [0, 12] 12 =
     createPipelineState compiles_all pso_state 1 2 [] [] 3 1 [6] [0] 12 \<and>
   createPipelineState compiles_all pso_state 1 2 [] [] 3 1 [6] [0, 12] 12 =
     Some (3, \<lparr> objects = [1 \<mapsto> 10, 2 \<mapsto> 30, 3 \<mapsto> 50], nextHandle = 4,
                refcount = (\<lambda>_. 0)(10 := 2, 30 := 2, 50 := 1),
                received = (\<lambda>_. []) \<rparr>) \<and>
   compiles_all 10 (psoDesc 30 [] [] [input_element 0 6 0] 3 1) = Some 50 \<and>
   createPipelineState compiles_none pso_state 1 2 [] [] 3 1 [6] [0, 12] 12 =
     Some (0, pso_state) \<and>
   createPipelineState compiles_all pso_state 9 2 [] [] 3 1 [6] [0] 12 = Some (0, pso_state)"
proof -
  have ne: "nextHandle pso_state \<noteq> LLONG_MAX"
    by (simp add: pso_state_def LLONG_MAX_def)
  from
    C6_surplus_offsets_ignored [where N = compiles_all and s = pso_state and d = 1 and r = 2 and vs = "[]"
      and ps = "[]" and tt = 3 and bm = 1 and formats = "[6]" and offsets = "[0, 12]"
      and stride = 12]
    C6_surplus_offsets_ignored [where N = compiles_none and s = pso_state and d = 1 and r = 2 and vs = "[]"
      and ps = "[]" and tt = 3 and bm = 1 and formats = "[6]" and offsets = "[0, 12]"
      and stride = 12]
    C6_surplus_offsets_ignored [where N = compiles_all and s = pso_state and d = 9 and r = 2 and vs = "[]"
      and ps = "[]" and tt = 3 and bm = 1 and formats = "[6]" and offsets = "[0]"
      and stride = 12]
    ne pso_state_surplus pso_state_invalid_device pso_state_native_failure pso_state_layout
  show ?thesis by (simp add: pso_state_facts compiles_all_def)
qed

subsection \<open>Reading a render target back\<close>

lemma and_not_255: "(t :: 32 word) AND NOT 255 = push_bit 8 (drop_bit 8 t)"
proof -
  have m: "(255 :: 32 word) = mask 8" by (simp add: mask_eq_exp_minus_1)
  show ?thesis unfolding m
    by (rule bit_eqI) (auto simp: bit_simps)
qed

lemma unat_and_not_255: "unat ((t :: 32 word) AND NOT 255) = 256 * (unat t div 256)"
proof -
  have "unat (push_bit 8 (drop_bit 8 t)) = take_bit LENGTH(32) (push_bit 8 (unat (drop_bit 8 t)))"
    by (simp only: unsigned_push_bit_eq)
  also have "unat (drop_bit 8 t) = unat t div 256"
    by (subst unat_drop_bit_eq) (simp add: drop_bit_eq_div)
  also have "push_bit 8 (unat t div 256) = 256 * (unat t div 256)"
    by (simp add: push_bit_eq_mult)
  also have "take_bit LENGTH(32) (256 * (unat t div 256)) = 256 * (unat t div 256)"
  proof (rule take_bit_nat_eq_self)
    have "256 * (unat t div 256) \<le> unat t" by simp
    also have "unat t < 2 ^ LENGTH(32)" by (rule unsigned_less)
    finally show "256 * (unat t div 256) < 2 ^ LENGTH(32)" .
  qed
  finally show ?thesis by (simp only: and_not_255)
qed

lemma int_result_Some:
  "INT_MIN \<le> v \<Longrightarrow> v \<le> INT_MAX \<Longrightarrow> int_result v = Some (word_of_int v)"
  by (simp add: int_result_def)

lemma int_result_sint:
  assumes "int_result v = Some w"
  shows "sint w = v"
proof -
  from assms have r: "- (2 ^ 31) \<le> v" "v < 2 ^ 31" and w: "w = word_of_int v"
    by (auto simp: int_result_def INT_MIN_def INT_MAX_def split: if_splits)
  have "signed_take_bit (LENGTH(32) - 1) v = v"
    by (rule signed_take_bit_int_eq_self) (use r in simp_all)
  then show "sint w = v" unfolding w by (simp only: sint_sbintrunc')
qed

lemma unat_word_of_int_32:
  assumes "0 \<le> v" and "v < 2 ^ 32"
  shows "unat (word_of_int v :: 32 word) = nat v"
proof -
  have "uint (word_of_int v :: 32 word) = v mod 2 ^ LENGTH(32)"
    by (rule uint_word_of_int)
  with assms have "uint (word_of_int v :: 32 word) = v" by simp
  then show ?thesis by (simp add: unat_eq_nat_uint)
qed

lemma row_pitch_value:
  assumes "0 \<le> sint width" and "sint width * 4 + 255 \<le> INT_MAX"
  shows "\<exists>rp. row_pitch width = Some rp \<and> unat rp = align256 (4 * nat (sint width))"
proof -
  from assms have r1: "INT_MIN \<le> sint width * 4" "sint width * 4 \<le> INT_MAX"
    by (simp_all add: INT_MIN_def INT_MAX_def)
  then have w4: "int_result (sint width * 4) = Some (word_of_int (sint width * 4))"
    by (rule int_result_Some)
  then have s4: "sint (word_of_int (sint width * 4) :: jint) = sint width * 4"
    by (rule int_result_sint)
  from assms have r2: "INT_MIN \<le> sint width * 4 + 255"
    by (simp add: INT_MIN_def)
  from r2 assms(2) have t: "int_result (sint width * 4 + 255) =
      Some (word_of_int (sint width * 4 + 255))"
    by (rule int_result_Some)
  have rp: "row_pitch width = Some (word_of_int (sint width * 4 + 255) AND NOT 255)"
    unfolding row_pitch_def w4 option.case s4 t ..
  have "unat (word_of_int (sint width * 4 + 255) :: 32 word) = nat (sint width * 4 + 255)"
    using assms by (intro unat_word_of_int_32) (simp_all add: INT_MAX_def)
  also have "\<dots> = 4 * nat (sint width) + 255"
    using assms(1) by (simp add: nat_add_distrib nat_mult_distrib)
  finally have "unat (word_of_int (sint width * 4 + 255) AND NOT 255 :: 32 word) =
      align256 (4 * nat (sint width))"
    by (simp only: unat_and_not_255 align256_def)
  with rp show ?thesis by blast
qed

lemma align256_multiple: "align256 n mod 256 = 0"
  by (simp add: align256_def)

lemma align256_bounds: "n \<le> align256 n \<and> align256 n < n + 256"
proof -
  define q where "q = (n + 255) div 256"
  define r where "r = (n + 255) mod 256"
  have e: "n + 255 = 256 * q + r"
    unfolding q_def r_def by (rule mult_div_mod_eq [symmetric])
  have "r < 256" unfolding r_def by simp
  with e have "n \<le> 256 * q \<and> 256 * q < n + 256" by linarith
  then show ?thesis by (simp add: align256_def q_def)
qed

lemma align256_least:
  assumes "m mod 256 = 0" and "n \<le> m"
  shows "align256 n \<le> m"
proof -
  define k where "k = m div 256"
  have m: "m = 256 * k"
    using assms(1) unfolding k_def by (simp add: mod_eq_0_iff_dvd)
  have "(n + 255) div 256 \<le> (256 * k + 255) div 256"
    using assms(2) m by (intro div_le_mono) simp
  also have "(256 * k + 255) div 256 = k" by simp
  finally show ?thesis by (simp add: align256_def m)
qed

lemma memcpy_row_result:
  assumes "memcpy_row width rp mapped y pixels = Some px"
  shows "0 \<le> sint width"
    and "length px = length pixels"
    and "i < length pixels \<Longrightarrow>
         px ! i =
           (if y * nat (sint width) \<le> i \<and> i < y * nat (sint width) + nat (sint width)
            then le32 (take 4 (drop (unat (word_of_nat y * rp :: UINT) +
                   4 * (i - y * nat (sint width))) mapped))
            else pixels ! i)"
proof -
  from assms obtain dst n where dst: "int_result (int y * sint width) = Some dst"
    and n: "int_result (sint width * 4) = Some n"
    by (auto simp: memcpy_row_def split: option.splits)
  define W where "W = nat (sint width)"
  define src where "src = unat (word_of_nat y * rp :: UINT)"
  from assms dst n have pos: "0 \<le> sint width"
    by (auto simp: memcpy_row_def Let_def split: if_splits)
  then show "0 \<le> sint width" .
  have d: "nat (sint dst) = y * W"
    using int_result_sint [OF dst] pos by (simp add: W_def nat_mult_distrib)
  from assms dst n d have fits: "y * W + W \<le> length pixels"
    and px: "px = take (y * W) pixels @
       map (\<lambda>x. le32 (take 4 (drop (src + 4 * x) mapped))) [0..<W] @
       drop (y * W + W) pixels"
    by (auto simp: memcpy_row_def Let_def W_def src_def split: if_splits)
  from fits show "length px = length pixels" by (simp add: px)
  assume i: "i < length pixels"
  show "px ! i =
           (if y * nat (sint width) \<le> i \<and> i < y * nat (sint width) + nat (sint width)
            then le32 (take 4 (drop (unat (word_of_nat y * rp :: UINT) +
                   4 * (i - y * nat (sint width))) mapped))
            else pixels ! i)"
    using fits i unfolding px W_def [symmetric] src_def [symmetric]
    by (auto simp: nth_append)
qed

lemma row_index:
  fixes W :: nat
  assumes "y * W \<le> i" and "i < y * W + W"
  shows "i div W = y" and "i mod W = i - y * W"
proof -
  from assms have W: "0 < W" by (cases W) auto
  define j where "j = i - y * W"
  with assms have i: "i = j + y * W" and j: "j < W" by simp_all
  show "i div W = y" unfolding i using j W by simp
  show "i mod W = i - y * W" unfolding i using j by simp
qed

lemma copy_rows_result:
  assumes "copy_rows width rp mapped n y pixels = Some out"
  shows "length out = length pixels \<and>
         (\<forall>i < length pixels. out ! i =
            (if y * nat (sint width) \<le> i \<and> i < (y + n) * nat (sint width)
             then le32 (take 4 (drop (unat (word_of_nat (i div nat (sint width)) * rp :: UINT) +
                    4 * (i mod nat (sint width))) mapped))
             else pixels ! i))"
  using assms
proof (induction n arbitrary: y pixels)
  case 0
  then show ?case by auto
next
  case (Suc n)
  define W where "W = nat (sint width)"
  from Suc.prems obtain px where m: "memcpy_row width rp mapped y pixels = Some px"
    and r: "copy_rows width rp mapped n (Suc y) px = Some out"
    by (auto split: option.splits)
  note mr = memcpy_row_result [OF m]
  from Suc.IH [OF r] have len: "length out = length px"
    and ih: "\<And>i. i < length px \<Longrightarrow> out ! i =
            (if Suc y * W \<le> i \<and> i < (Suc y + n) * W
             then le32 (take 4 (drop (unat (word_of_nat (i div W) * rp :: UINT) +
                    4 * (i mod W)) mapped))
             else px ! i)"
    unfolding W_def by simp_all
  have "out ! i =
            (if y * W \<le> i \<and> i < (y + Suc n) * W
             then le32 (take 4 (drop (unat (word_of_nat (i div W) * rp :: UINT) +
                    4 * (i mod W)) mapped))
             else pixels ! i)" if i: "i < length pixels" for i
  proof -
    from i mr(2) have i': "i < length px" by simp
    note o = ih [OF i']
    note p = mr(3) [OF i, folded W_def]
    consider (row) "y * W \<le> i" "i < y * W + W"
      | (later) "Suc y * W \<le> i" "i < (Suc y + n) * W"
      | (outside) "i < y * W \<or> (Suc y + n) * W \<le> i"
      by (cases "y * W \<le> i"; cases "i < y * W + W"; cases "i < (Suc y + n) * W") auto
    then show ?thesis
    proof cases
      case row
      then have c3: "y * W \<le> i \<and> i < (y + Suc n) * W" by (simp add: algebra_simps)
      from row have c1: "\<not> (Suc y * W \<le> i \<and> i < (Suc y + n) * W)" by simp
      from row have c2: "y * W \<le> i \<and> i < y * W + W" by simp
      have "out ! i = px ! i" by (simp only: o c1 if_False simp_thms)
      also have "px ! i = le32 (take 4 (drop (unat (word_of_nat y * rp :: UINT) +
                   4 * (i - y * W)) mapped))"
        by (simp only: p c2 if_True simp_thms)
      finally show ?thesis
        by (simp only: c3 if_True simp_thms row_index [OF row])
    next
      case later
      then have c3: "y * W \<le> i \<and> i < (y + Suc n) * W" by simp
      from later have c1: "Suc y * W \<le> i \<and> i < (Suc y + n) * W" by simp
      show ?thesis by (simp only: o c1 c3 if_True simp_thms)
    next
      case outside
      then have c3: "\<not> (y * W \<le> i \<and> i < (y + Suc n) * W)" by auto
      from outside have c1: "\<not> (Suc y * W \<le> i \<and> i < (Suc y + n) * W)" by auto
      from outside have c2: "\<not> (y * W \<le> i \<and> i < y * W + W)"
        by (auto simp: algebra_simps)
      have "out ! i = px ! i" by (simp only: o c1 if_False simp_thms)
      also have "px ! i = pixels ! i" by (simp only: p c2 if_False simp_thms)
      finally show ?thesis by (simp only: c3 if_False simp_thms)
    qed
  qed
  with len mr(2) show ?case unfolding W_def by simp
qed

lemma memcpy_row_defined:
  assumes "0 \<le> sint width" and "sint width * 4 \<le> INT_MAX"
    and "int y * sint width \<le> INT_MAX"
    and "y * nat (sint width) + nat (sint width) \<le> length pixels"
    and "unat (word_of_nat y * rp :: UINT) + 4 * nat (sint width) \<le> length mapped"
  shows "\<exists>px. memcpy_row width rp mapped y pixels = Some px"
proof -
  from assms(1,2) have "int_result (sint width * 4) = Some (word_of_int (sint width * 4))"
    by (intro int_result_Some) (simp_all add: INT_MIN_def)
  moreover have "0 \<le> int y * sint width"
    using assms(1) by (intro mult_nonneg_nonneg) simp_all
  with assms(3) have d: "int_result (int y * sint width) =
      Some (word_of_int (int y * sint width))"
    by (intro int_result_Some) (simp_all add: INT_MIN_def)
  moreover have "nat (sint (word_of_int (int y * sint width) :: jint)) = y * nat (sint width)"
    using int_result_sint [OF d] assms(1) by (simp add: nat_mult_distrib)
  ultimately show ?thesis
    using assms(1,4,5) by (simp add: memcpy_row_def Let_def)
qed

lemma copy_rows_defined:
  assumes "0 \<le> sint width" and "sint width * 4 \<le> INT_MAX"
    and "int (y + n) * sint width \<le> INT_MAX"
    and "(y + n) * nat (sint width) \<le> length pixels"
    and "\<And>k. y \<le> k \<Longrightarrow> k < y + n \<Longrightarrow>
           unat (word_of_nat k * rp :: UINT) + 4 * nat (sint width) \<le> length mapped"
  shows "\<exists>out. copy_rows width rp mapped n y pixels = Some out"
  using assms(3-5)
proof (induction n arbitrary: y pixels)
  case 0
  then show ?case by simp
next
  case (Suc n)
  have le: "int y * sint width \<le> int (y + Suc n) * sint width"
    using assms(1) by (intro mult_right_mono) simp_all
  have "y * nat (sint width) + nat (sint width) \<le> (y + Suc n) * nat (sint width)"
    by (simp add: algebra_simps)
  from this Suc.prems(2) have fit: "y * nat (sint width) + nat (sint width) \<le> length pixels"
    by (rule order_trans)
  have "\<exists>px. memcpy_row width rp mapped y pixels = Some px"
    using assms(1,2) le Suc.prems(1) fit Suc.prems(3) [of y]
    by (intro memcpy_row_defined) simp_all
  then obtain px where m: "memcpy_row width rp mapped y pixels = Some px" by blast
  have len: "length px = length pixels" by (rule memcpy_row_result(2) [OF m])
  have "\<exists>out. copy_rows width rp mapped n (Suc y) px = Some out"
  proof (rule Suc.IH)
    show "int (Suc y + n) * sint width \<le> INT_MAX" using Suc.prems(1) by simp
    show "(Suc y + n) * nat (sint width) \<le> length px" using Suc.prems(2) len by simp
    show "unat (word_of_nat k * rp :: UINT) + 4 * nat (sint width) \<le> length mapped"
      if "Suc y \<le> k" "k < Suc y + n" for k
      using that by (intro Suc.prems(3)) simp_all
  qed
  with m show ?case by simp
qed

lemma unat_row_offset:
  assumes "k * unat rp < 2 ^ 32"
  shows "unat (word_of_nat k * rp :: UINT) = k * unat rp"
proof -
  have "unat (word_of_nat k * rp :: UINT) = (unat (word_of_nat k :: UINT) * unat rp) mod 2 ^ LENGTH(32)"
    by (simp only: unat_word_ariths)
  also have "\<dots> = ((k mod 2 ^ LENGTH(32)) * unat rp) mod 2 ^ LENGTH(32)"
    by (simp only: unat_of_nat)
  also have "\<dots> = (k * unat rp) mod 2 ^ LENGTH(32)"
    by (rule mod_mult_left_eq)
  also have "\<dots> = k * unat rp"
    using assms by simp
  finally show ?thesis .
qed

lemma readBufferData_within_range:
  assumes W: "1 \<le> sint width" and H: "1 \<le> sint height"
    and pitch: "sint width * 4 + 255 \<le> INT_MAX"
    and area: "sint width * sint height * 4 \<le> INT_MAX"
    and nowrap: "(nat (sint height) - 1) * align256 (4 * nat (sint width)) < 2 ^ 32"
    and buf: "get s bufferHandle = Some buffer"
    and msize: "(nat (sint height) - 1) * align256 (4 * nat (sint width)) + 4 * nat (sint width)
                  \<le> length mapped"
    and psize: "nat (sint height) * nat (sint width) \<le> length pixels"
  shows "\<exists>rp out.
           row_pitch width = Some rp \<and> unat rp = align256 (4 * nat (sint width)) \<and>
           readBufferData s bufferHandle pixels width height (Some mapped) = Some out \<and>
           length out = length pixels \<and>
           (\<forall>y < nat (sint height). \<forall>x < nat (sint width).
              out ! (y * nat (sint width) + x) =
                le32 (take 4 (drop (y * unat rp + 4 * x) mapped))) \<and>
           (\<forall>i. nat (sint height) * nat (sint width) \<le> i \<and> i < length pixels \<longrightarrow>
              out ! i = pixels ! i)"
proof -
  define Wn where "Wn = nat (sint width)"
  define Hn where "Hn = nat (sint height)"
  from W H have Wpos: "0 < Wn" and Hpos: "0 < Hn" and sw: "sint width = int Wn"
    and sh: "sint height = int Hn"
    by (simp_all add: Wn_def Hn_def)
  from W have W0: "0 \<le> sint width" by simp
  from row_pitch_value [OF W0 pitch] obtain rp where rp: "row_pitch width = Some rp"
    and urp: "unat rp = align256 (4 * Wn)"
    unfolding Wn_def by blast
  have prod_nonneg: "0 \<le> sint width * sint height"
    using W H by (intro mult_nonneg_nonneg) simp_all
  have prod_le: "sint width * sint height \<le> INT_MAX"
    using area prod_nonneg by simp
  have wh: "int_result (sint width * sint height) = Some (word_of_int (sint width * sint height))"
    using prod_nonneg prod_le by (intro int_result_Some) (simp_all add: INT_MIN_def)
  have swh: "sint (word_of_int (sint width * sint height) :: jint) = sint width * sint height"
    using wh by (rule int_result_sint)
  have wh4: "int_result (sint width * sint height * 4) =
      Some (word_of_int (sint width * sint height * 4))"
  proof (rule int_result_Some)
    from prod_nonneg have "0 \<le> sint width * sint height * 4" by simp
    then show "INT_MIN \<le> sint width * sint height * 4" by (simp add: INT_MIN_def)
    show "sint width * sint height * 4 \<le> INT_MAX" by (rule area)
  qed
  have rd: "readBufferData s bufferHandle pixels width height (Some mapped) =
      copy_rows width rp mapped Hn 0 pixels"
    unfolding readBufferData_def buf option.case wh swh wh4 rp
    by (simp only: Hn_def)
  have off: "unat (word_of_nat k * rp :: UINT) = k * unat rp" if "k < Hn" for k
  proof (rule unat_row_offset)
    from that have "k \<le> Hn - 1" by simp
    then have "k * unat rp \<le> (Hn - 1) * unat rp" by (rule mult_le_mono1)
    also have "\<dots> < 2 ^ 32" using nowrap by (simp add: urp Hn_def Wn_def)
    finally show "k * unat rp < 2 ^ 32" .
  qed
  have "\<exists>out. copy_rows width rp mapped Hn 0 pixels = Some out"
  proof (rule copy_rows_defined)
    show "0 \<le> sint width" by (rule W0)
    show "sint width * 4 \<le> INT_MAX" using pitch by simp
    show "int (0 + Hn) * sint width \<le> INT_MAX"
      using prod_le by (simp add: sh mult.commute)
    show "(0 + Hn) * nat (sint width) \<le> length pixels"
      using psize by (simp add: Hn_def)
    show "unat (word_of_nat k * rp :: UINT) + 4 * nat (sint width) \<le> length mapped"
      if "0 \<le> k" "k < 0 + Hn" for k
    proof -
      from that have k: "k < Hn" by simp
      then have "k \<le> Hn - 1" by simp
      then have "k * unat rp \<le> (Hn - 1) * unat rp" by (rule mult_le_mono1)
      then have "k * unat rp + 4 * Wn \<le> (Hn - 1) * unat rp + 4 * Wn" by simp
      also have "\<dots> \<le> length mapped"
        using msize by (simp only: urp Hn_def Wn_def)
      finally show ?thesis
        by (simp only: off [OF k] Wn_def)
    qed
  qed
  then obtain out where out: "copy_rows width rp mapped Hn 0 pixels = Some out" by blast
  from copy_rows_result [OF out] have len: "length out = length pixels"
    and res: "\<And>i. i < length pixels \<Longrightarrow> out ! i =
            (if i < Hn * Wn
             then le32 (take 4 (drop (unat (word_of_nat (i div Wn) * rp :: UINT) +
                    4 * (i mod Wn)) mapped))
             else pixels ! i)"
    by (simp_all add: Wn_def)
  have px: "out ! (y * Wn + x) = le32 (take 4 (drop (y * unat rp + 4 * x) mapped))"
    if y: "y < Hn" and x: "x < Wn" for y x
  proof -
    have "y * Wn + x < y * Wn + Wn" using x by simp
    also have "\<dots> = Suc y * Wn" by simp
    also have "\<dots> \<le> Hn * Wn" using y by (intro mult_le_mono1) simp
    finally have lt: "y * Wn + x < Hn * Wn" .
    with psize have "y * Wn + x < length pixels" by (simp add: Hn_def Wn_def)
    from res [OF this] lt x off [OF y] show ?thesis by simp
  qed
  have rest: "out ! i = pixels ! i" if "Hn * Wn \<le> i \<and> i < length pixels" for i
    using res [of i] that by simp
  have "row_pitch width = Some rp \<and> unat rp = align256 (4 * nat (sint width)) \<and>
           readBufferData s bufferHandle pixels width height (Some mapped) = Some out \<and>
           length out = length pixels \<and>
           (\<forall>y < nat (sint height). \<forall>x < nat (sint width).
              out ! (y * nat (sint width) + x) =
                le32 (take 4 (drop (y * unat rp + 4 * x) mapped))) \<and>
           (\<forall>i. nat (sint height) * nat (sint width) \<le> i \<and> i < length pixels \<longrightarrow>
              out ! i = pixels ! i)"
    using rp urp rd out len px rest unfolding Wn_def Hn_def by simp
  then show ?thesis by (intro exI)
qed

lemma readback_state_facts:
  "get readback_state 1 = Some 12" "get readback_state 2 = Some 60"
  "get readback_state 3 = Some 61"
  by (simp_all add: readback_state_def get_def)

lemma row_pitch_1: "row_pitch 1 = Some 256"
  by (simp add: row_pitch_def int_result_def INT_MIN_def INT_MAX_def)

lemma tall_image_defined:
  "\<exists>out. copy_rows 1 256 (replicate 4294967296 0xAA @ replicate 4 0xBB) 16777217 0
            (replicate 16777217 0) = Some out"
proof (rule copy_rows_defined)
  show "0 \<le> sint (1 :: jint)" by simp
  show "sint (1 :: jint) * 4 \<le> INT_MAX" by (simp add: INT_MAX_def)
  show "int (0 + 16777217) * sint (1 :: jint) \<le> INT_MAX" by (simp add: INT_MAX_def)
  show "(0 + 16777217) * nat (sint (1 :: jint)) \<le> length (replicate 16777217 (0 :: jint))"
    by simp
  show "unat (word_of_nat k * 256 :: UINT) + 4 * nat (sint (1 :: jint))
          \<le> length (replicate 4294967296 (0xAA :: jbyte) @ replicate 4 0xBB)" for k
  proof -
    have "unat (word_of_nat k * 256 :: UINT) < 2 ^ LENGTH(32)" by (rule unsigned_less)
    then show ?thesis by simp
  qed
qed

text \<open>
  An image one pixel wide and \<open>2^24 + 1\<close> rows high: no signed product overflows, the
  row pitch is 256, and for the last row \<open>y * rowPitch\<close> is \<open>2^32\<close>, which is 0 in
  \<open>UINT\<close>. The last pixel of the output is read from byte 0 of the buffer (bytes
  \<open>0xAA\<close>), not from byte \<open>y * rowPitch + 4 * x\<close> (bytes \<open>0xBB\<close>).
\<close>

theorem C5_counterexample:
  "row_pitch 1 = Some 256 \<and>
   readBufferData readback_state 3 (replicate 16777217 0) 1 16777217
     (Some (replicate 4294967296 0xAA @ replicate 4 0xBB)) \<noteq> None \<and>
   the (readBufferData readback_state 3 (replicate 16777217 0) 1 16777217
         (Some (replicate 4294967296 0xAA @ replicate 4 0xBB))) ! 16777216 = 0xAAAAAAAA \<and>
   le32 (take 4 (drop (16777216 * 256 + 4 * 0)
     (replicate 4294967296 0xAA @ replicate 4 0xBB))) = 0xBBBBBBBB"
proof -
  let ?mapped = "replicate 4294967296 (0xAA :: jbyte) @ replicate 4 0xBB"
  let ?pixels = "replicate 16777217 (0 :: jint)"
  from tall_image_defined obtain out where
    out: "copy_rows 1 256 ?mapped 16777217 0 ?pixels = Some out" by blast
  have rd: "readBufferData readback_state 3 ?pixels 1 16777217 (Some ?mapped) = Some out"
    by (simp add: readBufferData_def readback_state_facts int_result_def INT_MIN_def
        INT_MAX_def row_pitch_1 out)
  have four: "replicate 4 x = [x, x, x, x]" for x :: jbyte
    by (simp add: numeral_eq_Suc)
  from copy_rows_result [OF out] have
    "out ! 16777216 = le32 (take 4 (drop (unat (word_of_nat 16777216 * 256 :: UINT)) ?mapped))"
    by simp
  also have "(word_of_nat 16777216 * 256 :: UINT) = 0" by simp
  also have "le32 (take 4 (drop (unat (0 :: UINT)) ?mapped)) = 0xAAAAAAAA"
    by (simp add: four)
  finally have "out ! 16777216 = 0xAAAAAAAA" .
  moreover have "le32 (take 4 (drop (16777216 * 256 + 4 * 0) ?mapped)) = 0xBBBBBBBB"
    by (simp add: four)
  ultimately show ?thesis using rd row_pitch_1 by simp
qed

lemma small_read_code:
  "readBufferData readback_state 3 [0, 0, 0, 0, 0, 0] 3 2 (Some small_buffer) =
     Some [1, 2, 3, 4, 5, 6]"
  by code_simp

lemma small_copy:
  "copyTextureToBuffer readback_state 1 2 3 3 2 =
     Some (call readback_state 12
       (CopyTextureRegion 61
          \<lparr> Footprint_Format = DXGI_FORMAT_R8G8B8A8_UNORM, Footprint_Width = 3,
            Footprint_Height = 2, Footprint_Depth = 1, Footprint_RowPitch = 256 \<rparr> 60))"
  by (simp add: copyTextureToBuffer_def readback_state_facts row_pitch_def int_result_def
      INT_MIN_def INT_MAX_def)

text \<open>
  C5, amended. Let the width \<open>W\<close> and the height \<open>H\<close> be at least 1 and within the
  range of the 32-bit arithmetic of the two functions: \<open>4 * W + 255\<close> and
  \<open>4 * W * H\<close> fit a signed 32-bit integer, and \<open>(H - 1)\<close> times the row pitch is
  below \<open>2^32\<close>. Then \<open>copyTextureToBuffer\<close> and \<open>readBufferData\<close> compute the same row
  pitch, the smallest multiple of 256 that is at least \<open>4 * W\<close>; with a buffer and a
  pixel array that are large enough, \<open>readBufferData\<close> returns, and it has written
  output element \<open>y * W + x\<close> from the four bytes at offset
  \<open>y * rowPitch + 4 * x\<close> of the buffer, for every \<open>x < W\<close> and \<open>y < H\<close>. So a buffer laid out
  by the footprint that \<open>copyTextureToBuffer\<close> recorded is read back pixel for pixel,
  whether or not \<open>W\<close> is a multiple of 64.
\<close>

theorem C5_readback_round_trip:
  assumes "1 \<le> sint width" and "1 \<le> sint height"
    and "sint width * 4 + 255 \<le> INT_MAX"
    and "sint width * sint height * 4 \<le> INT_MAX"
    and "(nat (sint height) - 1) * align256 (4 * nat (sint width)) < 2 ^ 32"
    and "get s commandListHandle = Some commandList"
    and "get s textureHandle = Some texture"
    and "get s bufferHandle = Some buffer"
    and "(nat (sint height) - 1) * align256 (4 * nat (sint width)) + 4 * nat (sint width)
           \<le> length mapped"
    and "nat (sint height) * nat (sint width) \<le> length pixels"
  shows "\<exists>rp out.
           row_pitch width = Some rp \<and>
           unat rp mod 256 = 0 \<and> 4 * nat (sint width) \<le> unat rp \<and>
           (\<forall>m. m mod 256 = 0 \<and> 4 * nat (sint width) \<le> m \<longrightarrow> unat rp \<le> m) \<and>
           copyTextureToBuffer s commandListHandle textureHandle bufferHandle width height =
             Some (call s commandList
               (CopyTextureRegion buffer
                  \<lparr> Footprint_Format = DXGI_FORMAT_R8G8B8A8_UNORM, Footprint_Width = width,
                    Footprint_Height = height, Footprint_Depth = 1,
                    Footprint_RowPitch = rp \<rparr> texture)) \<and>
           readBufferData s bufferHandle pixels width height (Some mapped) = Some out \<and>
           length out = length pixels \<and>
           (\<forall>y < nat (sint height). \<forall>x < nat (sint width).
              out ! (y * nat (sint width) + x) =
                le32 (take 4 (drop (y * unat rp + 4 * x) mapped))) \<and>
           (\<forall>img.
              (\<forall>y < nat (sint height). \<forall>x < nat (sint width).
                 take 4 (drop (y * unat rp + 4 * x) mapped) = img x y) \<longrightarrow>
              (\<forall>y < nat (sint height). \<forall>x < nat (sint width).
                 out ! (y * nat (sint width) + x) = le32 (img x y)))"
proof -
  from readBufferData_within_range [OF assms(1-5) assms(8-10)]
  obtain rp out where rp: "row_pitch width = Some rp"
    and urp: "unat rp = align256 (4 * nat (sint width))"
    and rd: "readBufferData s bufferHandle pixels width height (Some mapped) = Some out"
    and len: "length out = length pixels"
    and px: "\<forall>y < nat (sint height). \<forall>x < nat (sint width).
              out ! (y * nat (sint width) + x) =
                le32 (take 4 (drop (y * unat rp + 4 * x) mapped))"
    by blast
  have al: "unat rp mod 256 = 0" "4 * nat (sint width) \<le> unat rp"
    "\<forall>m. m mod 256 = 0 \<and> 4 * nat (sint width) \<le> m \<longrightarrow> unat rp \<le> m"
    unfolding urp using align256_bounds [of "4 * nat (sint width)"]
    by (simp_all add: align256_multiple align256_least)
  have cp: "copyTextureToBuffer s commandListHandle textureHandle bufferHandle width height =
             Some (call s commandList
               (CopyTextureRegion buffer
                  \<lparr> Footprint_Format = DXGI_FORMAT_R8G8B8A8_UNORM, Footprint_Width = width,
                    Footprint_Height = height, Footprint_Depth = 1,
                    Footprint_RowPitch = rp \<rparr> texture))"
    by (simp add: copyTextureToBuffer_def assms(6-8) rp)
  have img: "\<forall>img.
              (\<forall>y < nat (sint height). \<forall>x < nat (sint width).
                 take 4 (drop (y * unat rp + 4 * x) mapped) = img x y) \<longrightarrow>
              (\<forall>y < nat (sint height). \<forall>x < nat (sint width).
                 out ! (y * nat (sint width) + x) = le32 (img x y))"
    using px by simp
  show ?thesis
    by (intro exI [of _ rp] exI [of _ out] conjI rp al cp rd len px img)
qed

theorem C5_witness:
  "1 \<le> sint (3 :: jint) \<and> 1 \<le> sint (2 :: jint) \<and>
   sint (3 :: jint) * 4 + 255 \<le> INT_MAX \<and>
   sint (3 :: jint) * sint (2 :: jint) * 4 \<le> INT_MAX \<and>
   (nat (sint (2 :: jint)) - 1) * align256 (4 * nat (sint (3 :: jint))) < 2 ^ 32 \<and>
   length small_buffer = 268 \<and>
   row_pitch 3 = Some 256 \<and>
   copyTextureToBuffer readback_state 1 2 3 3 2 =
     Some (call readback_state 12
       (CopyTextureRegion 61
          \<lparr> Footprint_Format = DXGI_FORMAT_R8G8B8A8_UNORM, Footprint_Width = 3,
            Footprint_Height = 2, Footprint_Depth = 1, Footprint_RowPitch = 256 \<rparr> 60)) \<and>
   readBufferData readback_state 3 [0, 0, 0, 0, 0, 0] 3 2 (Some small_buffer) =
     Some [1, 2, 3, 4, 5, 6]"
proof -
  have h: "1 \<le> sint (3 :: jint)" "1 \<le> sint (2 :: jint)"
    "sint (3 :: jint) * 4 + 255 \<le> INT_MAX"
    "sint (3 :: jint) * sint (2 :: jint) * 4 \<le> INT_MAX"
    "(nat (sint (2 :: jint)) - 1) * align256 (4 * nat (sint (3 :: jint))) < 2 ^ 32"
    by (simp_all add: INT_MAX_def align256_def)
  have b: "(nat (sint (2 :: jint)) - 1) * align256 (4 * nat (sint (3 :: jint))) +
      4 * nat (sint (3 :: jint)) \<le> length small_buffer"
    "nat (sint (2 :: jint)) * nat (sint (3 :: jint)) \<le> length [0, 0, 0, 0, 0, 0 :: jint]"
    by (simp_all add: align256_def small_buffer_def)
  have rp: "row_pitch 3 = Some 256"
    by (simp add: row_pitch_def int_result_def INT_MIN_def INT_MAX_def)
  from C5_readback_round_trip [OF h readback_state_facts b] h rp small_copy small_read_code
  show ?thesis by (simp add: small_buffer_def)
qed

end
